theory Spec2Isabelle
  imports Complex_Main "HOL-Library.AList" "HOL-Library.Multiset"
begin

section \<open>Data model (types/proctoring)\<close>

text \<open>
  The severities are the string literals \<^verbatim>\<open>'low' | 'medium' | 'high' | 'critical'\<close> of
  \<^verbatim>\<open>ViolationEvent['severity']\<close>; the violation types are the members of the string enum
  \<^verbatim>\<open>ViolationType\<close>. Instants (\<^verbatim>\<open>Date\<close> objects and \<^verbatim>\<open>Date.now()\<close>) are integers: milliseconds
  since the epoch.
\<close>

datatype Severity = low | medium | high | critical

datatype ViolationType =
    FACE_NOT_VISIBLE | LOOKING_AWAY | MULTIPLE_FACES | PHONE_DETECTED
  | BOOK_DETECTED | DEVICE_DETECTED | CANDIDATE_ABSENT

record ViolationEvent =
  id' :: string
  type :: ViolationType
  timestamp :: int
  description :: string
  severity :: Severity
  duration :: "int option"

record SessionData =
  candidateName :: string
  sessionId :: string
  startTime :: int
  endTime :: "int option"
  violations :: "ViolationEvent list"
  totalDuration :: int
  integrityScore :: int

record MonitoringStatus =
  isRecording :: bool
  faceDetected :: bool
  objectsDetected :: "string list"
  currentViolation :: "ViolationType option"
  violationStartTime :: "int option"

section \<open>Strings\<close>

text \<open>
  A string is a list of code units below 256 (ISO 8859-1, with ASCII as its lower half;
  the labels of the detector are ASCII). Template literals print integers in decimal.
  On these code units \<^verbatim>\<open>String.prototype.toLowerCase\<close> maps the capitals \<open>A\<close> to \<open>Z\<close>,
  \<open>0xC0\<close> to \<open>0xD6\<close> and \<open>0xD8\<close> to \<open>0xDE\<close> to the code unit 32 above, and keeps every other
  one (\<open>0xD7\<close> is the multiplication sign, \<open>0xDF\<close> and \<open>0xFF\<close> are small letters).
  \<^verbatim>\<open>s.includes(sub)\<close> is the substring test.
\<close>

definition digitChars :: string where
  "digitChars = ''0123456789''"

function showNat :: "nat \<Rightarrow> string" where
  "showNat n =
     (if n < 10 then [digitChars ! n] else showNat (n div 10) @ [digitChars ! (n mod 10)])"
  by pat_completeness auto
termination
  by (relation "measure (\<lambda>n. n)") auto

declare showNat.simps [simp del]

definition showInt :: "int \<Rightarrow> string" where
  "showInt i = (if i < 0 then CHR ''-'' # showNat (nat (- i)) else showNat (nat i))"

definition upperCaseUnits :: string where
  "upperCaseUnits =
     ''ABCDEFGHIJKLMNOPQRSTUVWXYZ'' @
     [CHR 0xC0, CHR 0xC1, CHR 0xC2, CHR 0xC3, CHR 0xC4, CHR 0xC5, CHR 0xC6, CHR 0xC7,
      CHR 0xC8, CHR 0xC9, CHR 0xCA, CHR 0xCB, CHR 0xCC, CHR 0xCD, CHR 0xCE, CHR 0xCF,
      CHR 0xD0, CHR 0xD1, CHR 0xD2, CHR 0xD3, CHR 0xD4, CHR 0xD5, CHR 0xD6, CHR 0xD8,
      CHR 0xD9, CHR 0xDA, CHR 0xDB, CHR 0xDC, CHR 0xDD, CHR 0xDE]"

definition lowerCaseUnits :: string where
  "lowerCaseUnits =
     ''abcdefghijklmnopqrstuvwxyz'' @
     [CHR 0xE0, CHR 0xE1, CHR 0xE2, CHR 0xE3, CHR 0xE4, CHR 0xE5, CHR 0xE6, CHR 0xE7,
      CHR 0xE8, CHR 0xE9, CHR 0xEA, CHR 0xEB, CHR 0xEC, CHR 0xED, CHR 0xEE, CHR 0xEF,
      CHR 0xF0, CHR 0xF1, CHR 0xF2, CHR 0xF3, CHR 0xF4, CHR 0xF5, CHR 0xF6, CHR 0xF8,
      CHR 0xF9, CHR 0xFA, CHR 0xFB, CHR 0xFC, CHR 0xFD, CHR 0xFE]"

definition toLowerChar :: "char \<Rightarrow> char" where
  "toLowerChar c = (case map_of (zip upperCaseUnits lowerCaseUnits) c of None \<Rightarrow> c | Some l \<Rightarrow> l)"

definition toLowerCase :: "string \<Rightarrow> string" where
  "toLowerCase s = map toLowerChar s"

fun startsWith :: "string \<Rightarrow> string \<Rightarrow> bool" where
  "startsWith s [] = True"
| "startsWith [] (c # cs) = False"
| "startsWith (x # xs) (c # cs) = (x = c \<and> startsWith xs cs)"

fun includes' :: "string \<Rightarrow> string \<Rightarrow> bool" where
  "includes' [] sub = (sub = [])"
| "includes' (x # xs) sub = (startsWith (x # xs) sub \<or> includes' xs sub)"

section \<open>The hook's state (hooks/useProctoring)\<close>

text \<open>
  The three \<^verbatim>\<open>useRef\<close> maps are JavaScript \<^verbatim>\<open>Map\<close>s, which keep their keys in insertion
  order: association lists, with \<^verbatim>\<open>get\<close> as \<^const>\<open>map_of\<close>, \<^verbatim>\<open>set\<close> as \<^const>\<open>AList.update\<close>
  (an existing key keeps its place, a new key goes last), \<^verbatim>\<open>delete\<close> as \<^const>\<open>AList.delete\<close> and
  \<^verbatim>\<open>clear()\<close> as the empty list.

  The host's timer queue is part of the state: \<^verbatim>\<open>setTimeout(cb, delay)\<close> adds a pending
  single-shot timer under a fresh positive handle and returns the handle, \<^verbatim>\<open>clearTimeout(h)\<close>
  removes the pending timer with handle \<open>h\<close> if there is one. The only callback this hook
  schedules is the one of \<^verbatim>\<open>handleViolationTimeout\<close>, so a pending timer is recorded by the
  arguments that callback closes over.

  Every handler runs to completion on the event loop at one instant \<open>now\<close>, which is what every
  \<^verbatim>\<open>Date.now()\<close> and \<^verbatim>\<open>new Date()\<close> inside it reads. State updaters queued with
  \<^verbatim>\<open>setSessionData\<close> and \<^verbatim>\<open>setMonitoringStatus\<close> are applied in the order they are queued; the model
  applies each one where it is queued. The toast notifications are not part of the model.
\<close>

record Timer =
  handle :: nat
  fireAt :: int
  cbType :: ViolationType
  cbDescription :: string
  cbSeverity :: Severity

record Proctoring =
  sessionData :: SessionData
  monitoringStatus :: MonitoringStatus
  isDetectorReady :: bool
  violationTimeouts :: "(ViolationType \<times> nat) list"
  objectCooldowns :: "(string \<times> int) list"
  violationCooldowns :: "(ViolationType \<times> int) list"
  pendingTimers :: "Timer list"
  nextHandle :: nat

definition setTimeout ::
  "int \<Rightarrow> ViolationType \<Rightarrow> string \<Rightarrow> Severity \<Rightarrow> int \<Rightarrow> Proctoring \<Rightarrow> nat \<times> Proctoring" where
  "setTimeout now type' description' severity' delay st =
     (nextHandle st,
      st\<lparr>pendingTimers := pendingTimers st @
            [\<lparr>handle = nextHandle st, fireAt = now + delay, cbType = type',
              cbDescription = description', cbSeverity = severity'\<rparr>],
         nextHandle := Suc (nextHandle st)\<rparr>)"

definition clearTimeout :: "nat \<Rightarrow> Timer list \<Rightarrow> Timer list" where
  "clearTimeout h timers = filter (\<lambda>t. handle t \<noteq> h) timers"

definition useProctoring :: "int \<Rightarrow> string \<Rightarrow> Proctoring" where
  "useProctoring now candidateName' =
     \<lparr>sessionData =
        \<lparr>candidateName = candidateName', sessionId = ''session_'' @ showInt now,
         startTime = now, endTime = None, violations = [], totalDuration = 0,
         integrityScore = 100\<rparr>,
      monitoringStatus =
        \<lparr>isRecording = False, faceDetected = False, objectsDetected = [],
         currentViolation = None, violationStartTime = None\<rparr>,
      isDetectorReady = False,
      violationTimeouts = [], objectCooldowns = [], violationCooldowns = [],
      pendingTimers = [], nextHandle = 1\<rparr>"

subsection \<open>Scoring\<close>

fun severityRank :: "Severity \<Rightarrow> int" where
  "severityRank low = 1"
| "severityRank medium = 2"
| "severityRank high = 3"
| "severityRank critical = 4"

text \<open>
  The body of the first \<^verbatim>\<open>forEach\<close> of \<^verbatim>\<open>calculateIntegrityScore\<close>, on the pair of the set
  \<^verbatim>\<open>uniqueViolationTypes\<close> and the map \<^verbatim>\<open>violationTypeSeverity\<close>. Where the source asserts
  \<^verbatim>\<open>get(...)!\<close>, a missing entry would compare \<^verbatim>\<open>undefined\<close> ranks, which is false: nothing is
  stored.
\<close>

definition recordSeverity ::
  "ViolationEvent \<Rightarrow> ViolationType set \<times> (ViolationType \<times> Severity) list
     \<Rightarrow> ViolationType set \<times> (ViolationType \<times> Severity) list" where
  "recordSeverity violation acc =
     (case acc of (uniqueViolationTypes, violationTypeSeverity) \<Rightarrow>
        if type violation \<notin> uniqueViolationTypes then
          (insert (type violation) uniqueViolationTypes,
           AList.update (type violation) (severity violation) violationTypeSeverity)
        else
          (case map_of violationTypeSeverity (type violation) of
             None \<Rightarrow> (uniqueViolationTypes, violationTypeSeverity)
           | Some currentSeverity \<Rightarrow>
               if severityRank (severity violation) > severityRank currentSeverity then
                 (uniqueViolationTypes,
                  AList.update (type violation) (severity violation) violationTypeSeverity)
               else (uniqueViolationTypes, violationTypeSeverity)))"

text \<open>The body of the second \<^verbatim>\<open>forEach\<close>: the \<^verbatim>\<open>switch\<close> over the stored severity.\<close>

fun addDeduction :: "ViolationType \<times> Severity \<Rightarrow> int \<Rightarrow> int" where
  "addDeduction (t, low) deductions = deductions + 2"
| "addDeduction (t, medium) deductions = deductions + 5"
| "addDeduction (t, high) deductions = deductions + 10"
| "addDeduction (t, critical) deductions = deductions + 20"

definition calculateIntegrityScore :: "ViolationEvent list \<Rightarrow> int" where
  "calculateIntegrityScore violations' =
     (let violationTypeSeverity = snd (fold recordSeverity violations' ({}, []));
          deductions = fold addDeduction violationTypeSeverity 0
      in max 0 (100 - deductions))"

subsection \<open>Emitting a violation\<close>

fun getCooldownPeriod :: "ViolationType \<Rightarrow> int" where
  "getCooldownPeriod MULTIPLE_FACES = 15000"
| "getCooldownPeriod FACE_NOT_VISIBLE = 20000"
| "getCooldownPeriod LOOKING_AWAY = 10000"
| "getCooldownPeriod PHONE_DETECTED = 30000"
| "getCooldownPeriod DEVICE_DETECTED = 30000"
| "getCooldownPeriod BOOK_DETECTED = 30000"
| "getCooldownPeriod CANDIDATE_ABSENT = 10000"

text \<open>
  \<^verbatim>\<open>map.get(key) || 0\<close>: a missing entry reads as \<open>0\<close> (and so does a stored \<open>0\<close>).
\<close>

definition getOrZero :: "('k \<times> int) list \<Rightarrow> 'k \<Rightarrow> int" where
  "getOrZero m k = (case map_of m k of None \<Rightarrow> 0 | Some t \<Rightarrow> t)"

definition addViolation ::
  "int \<Rightarrow> ViolationType \<Rightarrow> string \<Rightarrow> Severity \<Rightarrow> Proctoring \<Rightarrow> Proctoring" where
  "addViolation now type' description' severity' st =
     (let lastViolation = getOrZero (violationCooldowns st) type';
          cooldownPeriod = getCooldownPeriod type'
      in if now - lastViolation < cooldownPeriod then st
         else
           let violation =
                 \<lparr>id' = ''violation_'' @ showInt now, type = type', timestamp = now,
                  description = description', severity = severity', duration = None\<rparr>;
               newViolations = violations (sessionData st) @ [violation];
               newScore = calculateIntegrityScore newViolations
           in st\<lparr>sessionData :=
                   (sessionData st)\<lparr>violations := newViolations, integrityScore := newScore\<rparr>,
                 violationCooldowns := AList.update type' now (violationCooldowns st)\<rparr>)"

text \<open>The exported \<^verbatim>\<open>addViolation\<close> called without a severity takes the default \<^verbatim>\<open>'medium'\<close>.\<close>

definition addViolationDefault ::
  "int \<Rightarrow> ViolationType \<Rightarrow> string \<Rightarrow> Proctoring \<Rightarrow> Proctoring" where
  "addViolationDefault now type' description' st = addViolation now type' description' medium st"

subsection \<open>Debounce timers\<close>

definition handleViolationTimeout ::
  "int \<Rightarrow> ViolationType \<Rightarrow> string \<Rightarrow> Severity \<Rightarrow> int \<Rightarrow> Proctoring \<Rightarrow> Proctoring" where
  "handleViolationTimeout now type' description' severity' delay st =
     (if map_of (violationTimeouts st) type' \<noteq> None then st
      else
        case setTimeout now type' description' severity' delay st of (timeout, st') \<Rightarrow>
          st'\<lparr>violationTimeouts := AList.update type' timeout (violationTimeouts st')\<rparr>)"

text \<open>
  \<^verbatim>\<open>if (timeout)\<close> tests the handle for truthiness: a missing entry is \<^verbatim>\<open>undefined\<close>, and a
  handle is truthy unless it is the number \<open>0\<close>.
\<close>

definition clearViolationTimeout :: "ViolationType \<Rightarrow> Proctoring \<Rightarrow> Proctoring" where
  "clearViolationTimeout type' st =
     (case map_of (violationTimeouts st) type' of
        None \<Rightarrow> st
      | Some timeout \<Rightarrow>
          if timeout \<noteq> 0 then
            st\<lparr>pendingTimers := clearTimeout timeout (pendingTimers st),
               violationTimeouts := AList.delete type' (violationTimeouts st)\<rparr>
          else st)"

text \<open>
  The callback passed to \<^verbatim>\<open>setTimeout\<close>, run by the host for the pending timer \<open>t\<close>, which
  the host has taken off its queue.
\<close>

definition timeoutCallback :: "int \<Rightarrow> Timer \<Rightarrow> Proctoring \<Rightarrow> Proctoring" where
  "timeoutCallback now t st =
     (let st' = addViolation now (cbType t) (cbDescription t) (cbSeverity t) st
      in st'\<lparr>violationTimeouts := AList.delete (cbType t) (violationTimeouts st')\<rparr>)"

text \<open>
  The host fires the timer with handle \<open>h\<close> at the instant \<open>now\<close>: possible only while that
  timer is pending and its delay has elapsed.
\<close>

definition fireTimeout :: "int \<Rightarrow> nat \<Rightarrow> Proctoring \<Rightarrow> Proctoring option" where
  "fireTimeout now h st =
     (case find (\<lambda>t. handle t = h) (pendingTimers st) of
        None \<Rightarrow> None
      | Some t \<Rightarrow>
          if fireAt t \<le> now then
            Some (timeoutCallback now t (st\<lparr>pendingTimers := clearTimeout h (pendingTimers st)\<rparr>))
          else None)"

subsection \<open>Processing one frame's detection results\<close>

text \<open>
  What this layer reads of the detector's answers. Of a face box only the verdict
  \<^verbatim>\<open>isLookingAway\<close> of \<^verbatim>\<open>proctoringDetector.analyzeLookingDirection\<close> on it is used (computed
  by the detector in floating point). A confidence is a real number here and only enters
  the description text, through \<^verbatim>\<open>${Math.round(obj.confidence * 100)}\<close>: the host multiplies
  and rounds in IEEE double arithmetic and prints the result. That computation is not part
  of this repository, and the model takes it as the parameter \<open>percentText\<close>, the function
  from a confidence to the text the host prints for it.
\<close>

record Face =
  isLookingAway :: bool

record FaceResult =
  hasFace :: bool
  count' :: int
  multipleFaces :: bool
  faces :: "Face list"

record ObjectResult =
  object :: string
  confidence :: real

text \<open>The body of \<^verbatim>\<open>objectResults.forEach\<close>, with \<open>now\<close> read once before the loop.\<close>

definition processObject ::
  "(real \<Rightarrow> string) \<Rightarrow> int \<Rightarrow> ObjectResult \<Rightarrow> Proctoring \<Rightarrow> Proctoring" where
  "processObject percentText now obj st =
     (let objectKey = toLowerCase (object obj);
          lastDetection = getOrZero (objectCooldowns st) objectKey;
          cooldownPeriod = 30000
      in if now - lastDetection > cooldownPeriod then
           if includes' objectKey ''phone'' then
             let st' = addViolation now PHONE_DETECTED
                         (''Mobile phone detected with '' @ percentText (confidence obj) @ ''% confidence'')
                         critical st
             in st'\<lparr>objectCooldowns := AList.update objectKey now (objectCooldowns st')\<rparr>
           else if includes' objectKey ''book'' then
             let st' = addViolation now BOOK_DETECTED
                         (''Book/notes detected with '' @ percentText (confidence obj) @ ''% confidence'')
                         high st
             in st'\<lparr>objectCooldowns := AList.update objectKey now (objectCooldowns st')\<rparr>
           else if includes' objectKey ''laptop'' \<or> includes' objectKey ''tablet'' then
             let st' = addViolation now DEVICE_DETECTED
                         (''Electronic device detected: '' @ object obj)
                         high st
             in st'\<lparr>objectCooldowns := AList.update objectKey now (objectCooldowns st')\<rparr>
           else st
         else st)"

definition faceNotVisibleText :: string where
  "faceNotVisibleText =
     ''Candidate'' @ [CHR 0x27] @ ''s face is not visible for more than 10 seconds''"

definition processDetectionResults ::
  "(real \<Rightarrow> string) \<Rightarrow> int \<Rightarrow> FaceResult \<Rightarrow> ObjectResult list \<Rightarrow> Proctoring
     \<Rightarrow> Proctoring" where
  "processDetectionResults percentText now faceResults objectResults st =
     (let st1 =
            (if \<not> hasFace faceResults then
               handleViolationTimeout now FACE_NOT_VISIBLE faceNotVisibleText high 10000 st
             else clearViolationTimeout FACE_NOT_VISIBLE st);
          st2 =
            (if hasFace faceResults \<and> count' faceResults > 1 \<and> multipleFaces faceResults then
               addViolation now MULTIPLE_FACES
                 (''Multiple people detected in frame ('' @ showInt (count' faceResults) @ '' faces)'')
                 critical st1
             else st1);
          st3 =
            (if hasFace faceResults \<and> faces faceResults \<noteq> [] then
               if isLookingAway (hd (faces faceResults)) then
                 handleViolationTimeout now LOOKING_AWAY
                   ''Candidate looking away from screen for more than 5 seconds'' medium 5000 st2
               else clearViolationTimeout LOOKING_AWAY st2
             else if hasFace faceResults then clearViolationTimeout LOOKING_AWAY st2
             else clearViolationTimeout LOOKING_AWAY st2)
      in fold (processObject percentText now) objectResults st3)"

text \<open>
  \<^verbatim>\<open>processVideoFrame\<close> captures a frame only while the detector is ready, the session is
  recording and the video has dimensions; the detection then runs asynchronously and, when
  its results arrive, the \<^verbatim>\<open>onload\<close> handler stores them in the monitoring status and
  processes them (it does not look at \<^verbatim>\<open>isRecording\<close> again).
\<close>

definition capturesFrame :: "bool \<Rightarrow> Proctoring \<Rightarrow> bool" where
  "capturesFrame videoReady st \<longleftrightarrow>
     isDetectorReady st \<and> isRecording (monitoringStatus st) \<and> videoReady"

definition onFrameLoaded ::
  "(real \<Rightarrow> string) \<Rightarrow> int \<Rightarrow> FaceResult \<Rightarrow> ObjectResult list \<Rightarrow> Proctoring
     \<Rightarrow> Proctoring" where
  "onFrameLoaded percentText now faceResults objectResults st =
     processDetectionResults percentText now faceResults objectResults
       (st\<lparr>monitoringStatus :=
             (monitoringStatus st)\<lparr>faceDetected := hasFace faceResults,
                                  objectsDetected := map object objectResults\<rparr>\<rparr>)"

subsection \<open>Starting and stopping\<close>

definition startMonitoring :: "int \<Rightarrow> Proctoring \<Rightarrow> Proctoring" where
  "startMonitoring now st =
     st\<lparr>monitoringStatus := (monitoringStatus st)\<lparr>isRecording := True\<rparr>,
        sessionData := (sessionData st)\<lparr>startTime := now\<rparr>\<rparr>"

definition stopMonitoring :: "int \<Rightarrow> Proctoring \<Rightarrow> Proctoring" where
  "stopMonitoring now st =
     st\<lparr>monitoringStatus := (monitoringStatus st)\<lparr>isRecording := False\<rparr>,
        sessionData :=
          (sessionData st)\<lparr>endTime := Some now,
                           totalDuration := (now - startTime (sessionData st)) div 1000\<rparr>,
        pendingTimers :=
          fold (\<lambda>entry timers. clearTimeout (snd entry) timers) (violationTimeouts st)
            (pendingTimers st),
        violationTimeouts := [],
        violationCooldowns := []\<rparr>"

subsection \<open>The hook as a transition system\<close>

text \<open>
  What can happen to a mounted hook, each at an instant: the detector becomes ready, the
  component starts or stops monitoring, the results of a captured frame arrive, the host
  fires a pending timer, or a caller uses the exported \<^verbatim>\<open>addViolation\<close>.
\<close>

datatype Event =
    DetectorReady
  | StartMonitoring
  | StopMonitoring
  | FrameLoaded FaceResult "ObjectResult list"
  | TimeoutFired nat
  | AddViolation ViolationType string Severity

fun step ::
  "(real \<Rightarrow> string) \<Rightarrow> int \<Rightarrow> Event \<Rightarrow> Proctoring \<Rightarrow> Proctoring option" where
  "step percentText now DetectorReady st = Some (st\<lparr>isDetectorReady := True\<rparr>)"
| "step percentText now StartMonitoring st = Some (startMonitoring now st)"
| "step percentText now StopMonitoring st = Some (stopMonitoring now st)"
| "step percentText now (FrameLoaded faceResults objectResults) st =
     Some (onFrameLoaded percentText now faceResults objectResults st)"
| "step percentText now (TimeoutFired h) st = fireTimeout now h st"
| "step percentText now (AddViolation type' description' severity') st =
     Some (addViolation now type' description' severity' st)"

fun run ::
  "(real \<Rightarrow> string) \<Rightarrow> (int \<times> Event) list \<Rightarrow> Proctoring \<Rightarrow> Proctoring option" where
  "run percentText [] st = Some st"
| "run percentText ((now, e) # es) st =
     (case step percentText now e st of None \<Rightarrow> None | Some st' \<Rightarrow> run percentText es st')"

inductive reachable :: "(real \<Rightarrow> string) \<Rightarrow> Proctoring \<Rightarrow> bool"
  for percentText :: "real \<Rightarrow> string" where
  mounted: "reachable percentText (useProctoring now candidateName')"
| stepped: "reachable percentText st \<Longrightarrow> step percentText now e st = Some st'
    \<Longrightarrow> reachable percentText st'"

text \<open>
  The examples below only ever render the confidence \<open>0.9\<close>, for which the host prints
  \<open>90\<close> (the double product \<open>0.9 * 100\<close> is \<open>90\<close>); this is the rendering they are run with.
\<close>

definition examplePercentText :: "real \<Rightarrow> string" where
  "examplePercentText c = ''90''"

section \<open>The detector's object filter (lib/detection)\<close>

text \<open>
  The primary path of \<^verbatim>\<open>ProctoringDetector.detectObjects\<close> on the predictions of the object
  model: the allow-list filter and the score threshold. Bounding boxes are not read by the
  hook and are left out.
\<close>

record Prediction =
  class' :: string
  score :: real

definition suspiciousObjects :: "string list" where
  "suspiciousObjects =
     [''cell phone'', ''book'', ''laptop'', ''mouse'', ''keyboard'',
      ''remote'', ''scissors'', ''teddy bear'', ''hair drier'', ''toothbrush'']"

definition detectObjects :: "Prediction list \<Rightarrow> ObjectResult list" where
  "detectObjects predictions =
     map (\<lambda>prediction. \<lparr>object = class' prediction, confidence = score prediction\<rparr>)
       (filter
          (\<lambda>prediction.
             list_ex
               (\<lambda>obj. includes' (toLowerCase (class' prediction)) obj
                      \<or> includes' obj (toLowerCase (class' prediction)))
               suspiciousObjects
             \<and> score prediction > 0.4)
          predictions)"

section \<open>The scoring rule as the specification words it\<close>

text \<open>
  Severities are ordered \<open>low < medium < high < critical\<close>. The specified score groups the
  events by type, keeps the greatest severity of each type, sums the deductions 2, 5, 10, 20
  over these maxima and clamps \<open>100 - total\<close> to \<open>[0, 100]\<close>.
\<close>

instantiation Severity :: linorder
begin

fun level :: "Severity \<Rightarrow> nat" where
  "level low = 0"
| "level medium = 1"
| "level high = 2"
| "level critical = 3"

definition less_eq_Severity :: "Severity \<Rightarrow> Severity \<Rightarrow> bool" where
  "less_eq_Severity a b = (level a \<le> level b)"

definition less_Severity :: "Severity \<Rightarrow> Severity \<Rightarrow> bool" where
  "less_Severity a b = (level a < level b)"

instance
proof
  fix x y :: Severity
  assume "x \<le> y" and "y \<le> x"
  then show "x = y"
    by (cases x; cases y) (simp_all add: less_eq_Severity_def)
qed (auto simp: less_eq_Severity_def less_Severity_def)

end

fun deduction :: "Severity \<Rightarrow> int" where
  "deduction low = 2"
| "deduction medium = 5"
| "deduction high = 10"
| "deduction critical = 20"

definition clamp :: "int \<Rightarrow> int \<Rightarrow> int \<Rightarrow> int" where
  "clamp x lo hi = max lo (min x hi)"

definition maxSeverity :: "ViolationType \<Rightarrow> ViolationEvent list \<Rightarrow> Severity" where
  "maxSeverity t vs = Max (set (map severity (filter (\<lambda>v. type v = t) vs)))"

definition totalDeductions :: "ViolationEvent list \<Rightarrow> int" where
  "totalDeductions vs = (\<Sum>t \<in> set (map type vs). deduction (maxSeverity t vs))"

definition computeIntegrityScore :: "ViolationEvent list \<Rightarrow> int" where
  "computeIntegrityScore vs = clamp (100 - totalDeductions vs) 0 100"

section \<open>Auxiliary notions for the proofs\<close>

text \<open>
  What the first loop of \<^const>\<open>calculateIntegrityScore\<close> has established after the events \<open>vs\<close>,
  and the part of an event the score reads.
\<close>

definition scanned :: "ViolationEvent list \<Rightarrow> ViolationType set \<times> (ViolationType \<times> Severity) list \<Rightarrow> bool" where
  "scanned vs acc \<longleftrightarrow>
     fst acc = type ` set vs \<and> fst ` set (snd acc) = type ` set vs \<and> distinct (map fst (snd acc)) \<and>
     (\<forall>t. t \<in> type ` set vs \<longrightarrow> map_of (snd acc) t = Some (maxSeverity t vs))"

definition scoreKey :: "ViolationEvent \<Rightarrow> ViolationType \<times> Severity" where
  "scoreKey v = (type v, severity v)"

text \<open>
  A detected object whose lower-cased label contains none of the four substrings the hook
  looks for, and a label the detector's allow-list lets through.
\<close>

definition unclassified :: "ObjectResult \<Rightarrow> bool" where
  "unclassified obj \<longleftrightarrow>
     \<not> includes' (toLowerCase (object obj)) ''phone''
     \<and> \<not> includes' (toLowerCase (object obj)) ''book''
     \<and> \<not> includes' (toLowerCase (object obj)) ''laptop''
     \<and> \<not> includes' (toLowerCase (object obj)) ''tablet''"

definition allowListed :: "string \<Rightarrow> bool" where
  "allowListed label \<longleftrightarrow>
     list_ex (\<lambda>obj. includes' (toLowerCase label) obj \<or> includes' obj (toLowerCase label))
       suspiciousObjects"

text \<open>
  The invariant of the timer bookkeeping: the handles of the pending timers are distinct,
  positive and below the next handle, every pending timer is recorded under its type in
  \<open>violationTimeouts\<close>, and every entry of \<open>violationTimeouts\<close> is the handle of a pending timer of
  that type. A handle is retired when it has been given out and is no longer pending. An
  event is quiet when it neither delivers a frame nor calls \<open>addViolation\<close> directly: time
  passes, timers fire, monitoring starts or stops.
\<close>

definition timersTracked :: "Proctoring \<Rightarrow> bool" where
  "timersTracked st \<longleftrightarrow>
     0 < nextHandle st
     \<and> distinct (map handle (pendingTimers st))
     \<and> (\<forall>t \<in> set (pendingTimers st).
          0 < handle t \<and> handle t < nextHandle st
          \<and> map_of (violationTimeouts st) (cbType t) = Some (handle t))
     \<and> (\<forall>ty h. map_of (violationTimeouts st) ty = Some h \<longrightarrow>
          (\<exists>t \<in> set (pendingTimers st). handle t = h \<and> cbType t = ty))"

definition retired :: "nat \<Rightarrow> Proctoring \<Rightarrow> bool" where
  "retired h st \<longleftrightarrow> h < nextHandle st \<and> h \<notin> handle ` set (pendingTimers st)"

fun quiet :: "Event \<Rightarrow> bool" where
  "quiet DetectorReady = True"
| "quiet StartMonitoring = True"
| "quiet StopMonitoring = True"
| "quiet (FrameLoaded faceResults objectResults) = False"
| "quiet (TimeoutFired h) = True"
| "quiet (AddViolation type' description' severity') = False"

definition ofType :: "ViolationType \<Rightarrow> ViolationEvent list \<Rightarrow> ViolationEvent list" where
  "ofType ty vs = filter (\<lambda>v. type v = ty) vs"

section \<open>The integrity score\<close>

lemma rank_less_iff: "severityRank a > severityRank b \<longleftrightarrow> b < a"
  by (cases a; cases b) (simp_all add: less_Severity_def)

lemma addDeduction_eq: "addDeduction p d = d + deduction (snd p)"
  by (cases p; cases "snd p") auto

lemma fold_addDeduction: "fold addDeduction m d = d + sum_list (map (deduction \<circ> snd) m)"
  by (induction m arbitrary: d) (simp_all add: addDeduction_eq)

lemma sum_list_distinct_keys:
  "distinct (map fst m) \<Longrightarrow>
   sum_list (map (f \<circ> snd) m) = (\<Sum>k \<in> fst ` set m. f (the (map_of m k)))"
proof (induction m)
  case Nil
  then show ?case by simp
next
  case (Cons p m)
  obtain k v where p: "p = (k, v)" by (cases p)
  from Cons.prems p have k: "k \<notin> fst ` set m" and d: "distinct (map fst m)" by auto
  have "(\<Sum>j \<in> fst ` set m. f (the (map_of (p # m) j))) = (\<Sum>j \<in> fst ` set m. f (the (map_of m j)))"
    using k p by (intro sum.cong) auto
  with Cons.IH [OF d] k p show ?case by simp
qed

lemma maxSeverity_snoc_other:
  "type v \<noteq> t \<Longrightarrow> maxSeverity t (vs @ [v]) = maxSeverity t vs"
  by (simp add: maxSeverity_def)

lemma maxSeverity_snoc_new:
  assumes "type v \<notin> type ` set vs"
  shows "maxSeverity (type v) (vs @ [v]) = severity v"
proof -
  have "\<And>u. u \<in> set vs \<Longrightarrow> type u \<noteq> type v"
    using assms by (metis imageI)
  then have "filter (\<lambda>u. type u = type v) vs = []"
    by (simp add: filter_empty_conv)
  then show ?thesis by (simp add: maxSeverity_def)
qed

lemma maxSeverity_snoc_old:
  "type v \<in> type ` set vs \<Longrightarrow>
   maxSeverity (type v) (vs @ [v]) = max (severity v) (maxSeverity (type v) vs)"
proof -
  assume "type v \<in> type ` set vs"
  then have ne: "severity ` {u \<in> set vs. type u = type v} \<noteq> {}" by auto
  have "maxSeverity (type v) (vs @ [v]) = Max (insert (severity v) (severity ` {u \<in> set vs. type u = type v}))"
    by (simp add: maxSeverity_def)
  also have "\<dots> = max (severity v) (Max (severity ` {u \<in> set vs. type u = type v}))"
    using ne by (intro Max_insert) auto
  finally show ?thesis by (simp add: maxSeverity_def)
qed

lemma scanned_fold: "scanned vs (fold recordSeverity vs ({}, []))"
proof (induction vs rule: rev_induct)
  case Nil
  then show ?case by (simp add: scanned_def)
next
  case (snoc v vs)
  obtain U m where acc: "fold recordSeverity vs ({}, []) = (U, m)" by force
  from snoc acc have sc: "scanned vs (U, m)" by simp
  have U: "U = type ` set vs" and keys: "fst ` set m = type ` set vs"
    and dist: "distinct (map fst m)"
    and mx: "\<And>t. t \<in> type ` set vs \<Longrightarrow> map_of m t = Some (maxSeverity t vs)"
    using sc unfolding scanned_def fst_conv snd_conv by blast+
  have other: "\<And>t k. t \<noteq> type v \<Longrightarrow> t \<in> type ` set (vs @ [v]) \<Longrightarrow>
      map_of (AList.update (type v) k m) t = Some (maxSeverity t (vs @ [v]))
      \<and> map_of m t = Some (maxSeverity t (vs @ [v]))"
  proof -
    fix t k assume ne: "t \<noteq> type v" and "t \<in> type ` set (vs @ [v])"
    then have "t \<in> type ` set vs" by auto
    then have "map_of m t = Some (maxSeverity t vs)" by (rule mx)
    moreover have "maxSeverity t (vs @ [v]) = maxSeverity t vs"
      using ne by (simp add: maxSeverity_snoc_other)
    ultimately show "map_of (AList.update (type v) k m) t = Some (maxSeverity t (vs @ [v]))
      \<and> map_of m t = Some (maxSeverity t (vs @ [v]))"
      using ne by (simp add: update_conv')
  qed
  have types: "type ` set (vs @ [v]) = insert (type v) (type ` set vs)" by simp
  show ?case
  proof (cases "type v \<in> U")
    case False
    then have new: "type v \<notin> type ` set vs" using U by simp
    let ?m' = "AList.update (type v) (severity v) m"
    have r: "fold recordSeverity (vs @ [v]) ({}, []) = (insert (type v) U, ?m')"
      using False acc by (simp add: recordSeverity_def)
    have k': "fst ` set ?m' = type ` set (vs @ [v])"
      unfolding types dom_update keys by simp
    have d': "distinct (map fst ?m')" using dist by (rule distinct_update)
    have mx': "map_of ?m' t = Some (maxSeverity t (vs @ [v]))" if "t \<in> type ` set (vs @ [v])" for t
    proof (cases "t = type v")
      case True
      then show ?thesis using maxSeverity_snoc_new [OF new] by (simp add: update_conv')
    next
      case False
      then show ?thesis using other that by blast
    qed
    show ?thesis
      unfolding scanned_def r fst_conv snd_conv
    proof (intro conjI allI impI)
      show "insert (type v) U = type ` set (vs @ [v])" using U by simp
      show "fst ` set ?m' = type ` set (vs @ [v])" by (rule k')
      show "distinct (map fst ?m')" by (rule d')
      fix t assume "t \<in> type ` set (vs @ [v])"
      then show "map_of ?m' t = Some (maxSeverity t (vs @ [v]))" by (rule mx')
    qed
  next
    case True
    then have old: "type v \<in> type ` set vs" using U by simp
    then have cur: "map_of m (type v) = Some (maxSeverity (type v) vs)" by (rule mx)
    let ?m' = "if severityRank (severity v) > severityRank (maxSeverity (type v) vs)
               then AList.update (type v) (severity v) m else m"
    have r: "fold recordSeverity (vs @ [v]) ({}, []) = (U, ?m')"
      using True cur acc by (simp add: recordSeverity_def)
    have types': "type ` set (vs @ [v]) = type ` set vs"
      unfolding types using old by (rule insert_absorb)
    have k': "fst ` set ?m' = type ` set (vs @ [v])"
      unfolding types' using keys old by (simp add: dom_update insert_absorb)
    have d': "distinct (map fst ?m')" using dist by (simp add: distinct_update)
    have mx': "map_of ?m' t = Some (maxSeverity t (vs @ [v]))" if "t \<in> type ` set (vs @ [v])" for t
    proof (cases "t = type v")
      case True
      then show ?thesis
        using cur maxSeverity_snoc_old [OF old]
        by (auto simp: update_conv' rank_less_iff max_def)
    next
      case False
      then show ?thesis using other [of t "severity v"] that by simp
    qed
    show ?thesis
      unfolding scanned_def r fst_conv snd_conv
    proof (intro conjI allI impI)
      show "U = type ` set (vs @ [v])" using U types' by simp
      show "fst ` set ?m' = type ` set (vs @ [v])" by (rule k')
      show "distinct (map fst ?m')" by (rule d')
      fix t assume "t \<in> type ` set (vs @ [v])"
      then show "map_of ?m' t = Some (maxSeverity t (vs @ [v]))" by (rule mx')
    qed
  qed
qed

lemma deductions_eq_total:
  "fold addDeduction (snd (fold recordSeverity vs ({}, []))) 0 = totalDeductions vs"
proof -
  let ?m = "snd (fold recordSeverity vs ({}, []))"
  have dom: "fst ` set ?m = type ` set vs"
    and dist: "distinct (map fst ?m)"
    and mx: "\<And>t. t \<in> type ` set vs \<Longrightarrow> map_of ?m t = Some (maxSeverity t vs)"
    using scanned_fold [of vs] unfolding scanned_def by blast+
  have "fold addDeduction ?m 0 = (\<Sum>k \<in> fst ` set ?m. deduction (the (map_of ?m k)))"
    using sum_list_distinct_keys [OF dist, of deduction] by (simp add: fold_addDeduction)
  also have "\<dots> = (\<Sum>k \<in> type ` set vs. deduction (maxSeverity k vs))"
    unfolding dom by (intro sum.cong) (simp_all add: mx)
  finally show ?thesis by (simp add: totalDeductions_def)
qed

lemma deduction_nonneg: "0 \<le> deduction s"
  by (cases s) simp_all

lemma totalDeductions_nonneg: "0 \<le> totalDeductions vs"
  unfolding totalDeductions_def by (intro sum_nonneg) (simp add: deduction_nonneg)

lemma score_by_totalDeductions:
  "calculateIntegrityScore vs = max 0 (100 - totalDeductions vs)"
  by (simp add: calculateIntegrityScore_def deductions_eq_total)

text \<open>
  Claim C1. For every list of violation events, \<^const>\<open>calculateIntegrityScore\<close> returns the
  specified score: the events grouped by type, the greatest severity kept for each type, the
  deductions 2, 5, 10, 20 summed over these maxima, and \<open>100 - total\<close> clamped to \<open>[0, 100]\<close>;
  in particular the result lies between 0 and 100.
\<close>

theorem calculateIntegrityScore_refines_spec:
  "calculateIntegrityScore vs = computeIntegrityScore vs
   \<and> 0 \<le> calculateIntegrityScore vs \<and> calculateIntegrityScore vs \<le> 100"
  using totalDeductions_nonneg [of vs]
  by (simp add: score_by_totalDeductions computeIntegrityScore_def clamp_def)

lemma totalDeductions_cong:
  assumes "scoreKey ` set xs = scoreKey ` set ys"
  shows "totalDeductions xs = totalDeductions ys"
proof -
  have ty: "set (map type vs) = fst ` scoreKey ` set vs" for vs
    by (force simp: scoreKey_def)
  have sv: "set (map severity (filter (\<lambda>v. type v = t) vs)) = snd ` {p \<in> scoreKey ` set vs. fst p = t}" for vs t
    by (force simp: scoreKey_def)
  have "maxSeverity t xs = maxSeverity t ys" for t
    unfolding maxSeverity_def sv assms ..
  then show ?thesis
    unfolding totalDeductions_def ty assms by simp
qed

lemma score_cong:
  "scoreKey ` set xs = scoreKey ` set ys \<Longrightarrow> calculateIntegrityScore xs = calculateIntegrityScore ys"
  using totalDeductions_cong [of xs ys] by (simp add: score_by_totalDeductions)

text \<open>
  Claim C2. The score of a violation list is the score of each of its permutations, and
  appending an event whose type already occurs in the list with a severity at least that of
  the new event leaves the score unchanged.
\<close>

theorem score_permutation_and_duplicate:
  "(mset xs = mset ys \<longrightarrow> calculateIntegrityScore xs = calculateIntegrityScore ys)
   \<and> ((\<exists>u \<in> set vs. type u = type v \<and> severity v \<le> severity u) \<longrightarrow>
        calculateIntegrityScore (vs @ [v]) = calculateIntegrityScore vs)"
proof (intro conjI impI)
  assume "mset xs = mset ys"
  then have "set xs = set ys" by (rule mset_eq_setD)
  then have "scoreKey ` set xs = scoreKey ` set ys" by simp
  then show "calculateIntegrityScore xs = calculateIntegrityScore ys"
    by (rule score_cong)
next
  assume "\<exists>u \<in> set vs. type u = type v \<and> severity v \<le> severity u"
  then obtain u where u: "u \<in> set vs" "type u = type v" "severity v \<le> severity u" by blast
  have "scoreKey u \<in> scoreKey ` set vs" using u(1) by (rule imageI)
  moreover have "scoreKey u = (type v, severity u)" using u(2) by (simp add: scoreKey_def)
  ultimately have old: "type v \<in> type ` set vs" using u(1,2) by (metis imageI)
  have tys: "set (map type (vs @ [v])) = set (map type vs)"
    using old by (simp add: insert_absorb)
  have "severity u \<in> set (map severity (filter (\<lambda>w. type w = type v) vs))"
    using u(1,2) by simp
  then have "severity u \<le> maxSeverity (type v) vs"
    unfolding maxSeverity_def by (intro Max_ge) simp_all
  with u(3) have "severity v \<le> maxSeverity (type v) vs" by (rule order_trans)
  then have "max (severity v) (maxSeverity (type v) vs) = maxSeverity (type v) vs"
    by (rule max_absorb2)
  then have same: "maxSeverity (type v) (vs @ [v]) = maxSeverity (type v) vs"
    using maxSeverity_snoc_old [OF old] by simp
  have all: "maxSeverity t (vs @ [v]) = maxSeverity t vs" for t
  proof (cases "t = type v")
    case True
    then show ?thesis using same by simp
  next
    case False
    then show ?thesis using maxSeverity_snoc_other [of v t vs] by simp
  qed
  have "totalDeductions (vs @ [v]) = totalDeductions vs"
    unfolding totalDeductions_def tys all ..
  then show "calculateIntegrityScore (vs @ [v]) = calculateIntegrityScore vs"
    by (simp only: score_by_totalDeductions)
qed

theorem score_permutation_and_duplicate_witness:
  "mset [\<lparr>id' = ''violation_1'', type = PHONE_DETECTED, timestamp = 1, description = ''a'',
           severity = critical, duration = None\<rparr>,
         \<lparr>id' = ''violation_2'', type = LOOKING_AWAY, timestamp = 2, description = ''b'',
           severity = medium, duration = None\<rparr>]
   = mset [\<lparr>id' = ''violation_2'', type = LOOKING_AWAY, timestamp = 2, description = ''b'',
           severity = medium, duration = None\<rparr>,
          \<lparr>id' = ''violation_1'', type = PHONE_DETECTED, timestamp = 1, description = ''a'',
           severity = critical, duration = None\<rparr>]
   \<and> calculateIntegrityScore
        [\<lparr>id' = ''violation_1'', type = PHONE_DETECTED, timestamp = 1, description = ''a'',
           severity = critical, duration = None\<rparr>,
         \<lparr>id' = ''violation_2'', type = LOOKING_AWAY, timestamp = 2, description = ''b'',
           severity = medium, duration = None\<rparr>]
     = calculateIntegrityScore
        [\<lparr>id' = ''violation_2'', type = LOOKING_AWAY, timestamp = 2, description = ''b'',
           severity = medium, duration = None\<rparr>,
         \<lparr>id' = ''violation_1'', type = PHONE_DETECTED, timestamp = 1, description = ''a'',
           severity = critical, duration = None\<rparr>]
   \<and> high \<le> critical
   \<and> calculateIntegrityScore
        ([\<lparr>id' = ''violation_1'', type = PHONE_DETECTED, timestamp = 1, description = ''a'',
           severity = critical, duration = None\<rparr>,
          \<lparr>id' = ''violation_2'', type = LOOKING_AWAY, timestamp = 2, description = ''b'',
           severity = medium, duration = None\<rparr>]
         @ [\<lparr>id' = ''violation_3'', type = PHONE_DETECTED, timestamp = 3, description = ''c'',
             severity = high, duration = None\<rparr>])
     = calculateIntegrityScore
        [\<lparr>id' = ''violation_1'', type = PHONE_DETECTED, timestamp = 1, description = ''a'',
           severity = critical, duration = None\<rparr>,
         \<lparr>id' = ''violation_2'', type = LOOKING_AWAY, timestamp = 2, description = ''b'',
           severity = medium, duration = None\<rparr>]"
  using score_permutation_and_duplicate
    [of "[\<lparr>id' = ''violation_1'', type = PHONE_DETECTED, timestamp = 1, description = ''a'',
           severity = critical, duration = None\<rparr>,
          \<lparr>id' = ''violation_2'', type = LOOKING_AWAY, timestamp = 2, description = ''b'',
           severity = medium, duration = None\<rparr>]"
        "[\<lparr>id' = ''violation_2'', type = LOOKING_AWAY, timestamp = 2, description = ''b'',
           severity = medium, duration = None\<rparr>,
          \<lparr>id' = ''violation_1'', type = PHONE_DETECTED, timestamp = 1, description = ''a'',
           severity = critical, duration = None\<rparr>]"
        "[\<lparr>id' = ''violation_1'', type = PHONE_DETECTED, timestamp = 1, description = ''a'',
           severity = critical, duration = None\<rparr>,
          \<lparr>id' = ''violation_2'', type = LOOKING_AWAY, timestamp = 2, description = ''b'',
           severity = medium, duration = None\<rparr>]"
        "\<lparr>id' = ''violation_3'', type = PHONE_DETECTED, timestamp = 3, description = ''c'',
             severity = high, duration = None\<rparr>"]
  by (simp add: less_eq_Severity_def)

text \<open>
  Claim C9. The score depends only on the types and severities of the events: two lists whose
  events agree pairwise on type and severity, and more generally two lists with the same
  multiset of (type, severity) pairs, have the same score, whatever their ids, timestamps,
  descriptions and durations.
\<close>

theorem score_depends_on_type_and_severity_only:
  "(map (\<lambda>v. (type v, severity v)) xs = map (\<lambda>v. (type v, severity v)) ys \<longrightarrow>
      calculateIntegrityScore xs = calculateIntegrityScore ys)
   \<and> (mset (map (\<lambda>v. (type v, severity v)) xs) = mset (map (\<lambda>v. (type v, severity v)) ys) \<longrightarrow>
      calculateIntegrityScore xs = calculateIntegrityScore ys)"
proof -
  have m: "calculateIntegrityScore xs = calculateIntegrityScore ys"
    if "mset (map (\<lambda>v. (type v, severity v)) xs) = mset (map (\<lambda>v. (type v, severity v)) ys)"
  proof -
    from that have "set (map (\<lambda>v. (type v, severity v)) xs) = set (map (\<lambda>v. (type v, severity v)) ys)"
      by (rule mset_eq_setD)
    then have "scoreKey ` set xs = scoreKey ` set ys"
      by (simp add: scoreKey_def [abs_def])
    then show ?thesis by (rule score_cong)
  qed
  show ?thesis
  proof (intro conjI impI)
    assume "map (\<lambda>v. (type v, severity v)) xs = map (\<lambda>v. (type v, severity v)) ys"
    then have "mset (map (\<lambda>v. (type v, severity v)) xs) = mset (map (\<lambda>v. (type v, severity v)) ys)"
      by simp
    then show "calculateIntegrityScore xs = calculateIntegrityScore ys" by (rule m)
  next
    assume "mset (map (\<lambda>v. (type v, severity v)) xs) = mset (map (\<lambda>v. (type v, severity v)) ys)"
    then show "calculateIntegrityScore xs = calculateIntegrityScore ys" by (rule m)
  qed
qed

theorem score_depends_on_type_and_severity_only_witness:
  "map (\<lambda>v. (type v, severity v))
      [\<lparr>id' = ''violation_1'', type = PHONE_DETECTED, timestamp = 1, description = ''a'',
        severity = critical, duration = None\<rparr>]
   = map (\<lambda>v. (type v, severity v))
      [\<lparr>id' = ''violation_77'', type = PHONE_DETECTED, timestamp = 77, description = ''z'',
        severity = critical, duration = Some 4\<rparr>]
   \<and> calculateIntegrityScore
      [\<lparr>id' = ''violation_1'', type = PHONE_DETECTED, timestamp = 1, description = ''a'',
        severity = critical, duration = None\<rparr>]
     = calculateIntegrityScore
      [\<lparr>id' = ''violation_77'', type = PHONE_DETECTED, timestamp = 77, description = ''z'',
        severity = critical, duration = Some 4\<rparr>]"
  using score_depends_on_type_and_severity_only
    [of "[\<lparr>id' = ''violation_1'', type = PHONE_DETECTED, timestamp = 1, description = ''a'',
        severity = critical, duration = None\<rparr>]"
        "[\<lparr>id' = ''violation_77'', type = PHONE_DETECTED, timestamp = 77, description = ''z'',
        severity = critical, duration = Some 4\<rparr>]"]
  by simp

section \<open>Emitting a violation under its cooldown\<close>

lemma getOrZero_update: "getOrZero (AList.update k v m) k' = (if k' = k then v else getOrZero m k')"
  by (simp add: getOrZero_def update_conv')

text \<open>
  Claim C3. For every violation type and every instant \<open>now\<close>, \<^const>\<open>addViolation\<close> changes
  nothing (violations, score and cooldown ledger included) when \<open>now\<close> minus the last emission
  of the type is less than the type's cooldown; otherwise it appends exactly one event to the
  violations, stores the score recomputed from the new list and records \<open>now\<close> as the type's last
  emission. The cooldowns are 15 s for multiple faces, 20 s for face not visible, 10 s for
  looking away, 30 s for phone, device and book, and 10 s for any other type.
\<close>

theorem addViolation_cooldown:
  "(now - getOrZero (violationCooldowns st) ty < getCooldownPeriod ty \<longrightarrow>
      addViolation now ty d s st = st)
   \<and> (\<not> now - getOrZero (violationCooldowns st) ty < getCooldownPeriod ty \<longrightarrow>
      violations (sessionData (addViolation now ty d s st)) =
        violations (sessionData st) @
          [\<lparr>id' = ''violation_'' @ showInt now, type = ty, timestamp = now,
            description = d, severity = s, duration = None\<rparr>]
      \<and> integrityScore (sessionData (addViolation now ty d s st)) =
          calculateIntegrityScore (violations (sessionData (addViolation now ty d s st)))
      \<and> map_of (violationCooldowns (addViolation now ty d s st)) =
          (map_of (violationCooldowns st))(ty \<mapsto> now)
      \<and> getOrZero (violationCooldowns (addViolation now ty d s st)) ty = now)
   \<and> getCooldownPeriod MULTIPLE_FACES = 15000
   \<and> getCooldownPeriod FACE_NOT_VISIBLE = 20000
   \<and> getCooldownPeriod LOOKING_AWAY = 10000
   \<and> getCooldownPeriod PHONE_DETECTED = 30000
   \<and> getCooldownPeriod DEVICE_DETECTED = 30000
   \<and> getCooldownPeriod BOOK_DETECTED = 30000
   \<and> getCooldownPeriod CANDIDATE_ABSENT = 10000"
  by (simp add: addViolation_def Let_def getOrZero_update update_conv')

theorem addViolation_cooldown_witness:
  "20000 - getOrZero (violationCooldowns (useProctoring 0 ''A'')) MULTIPLE_FACES
      \<ge> getCooldownPeriod MULTIPLE_FACES
   \<and> map (\<lambda>v. (type v, severity v, timestamp v))
        (violations (sessionData
           (addViolation 20000 MULTIPLE_FACES ''two'' critical (useProctoring 0 ''A''))))
      = [(MULTIPLE_FACES, critical, 20000)]
   \<and> integrityScore (sessionData
        (addViolation 20000 MULTIPLE_FACES ''two'' critical (useProctoring 0 ''A''))) = 80
   \<and> 25000 - getOrZero (violationCooldowns
          (addViolation 20000 MULTIPLE_FACES ''two'' critical (useProctoring 0 ''A''))) MULTIPLE_FACES
      < getCooldownPeriod MULTIPLE_FACES
   \<and> addViolation 25000 MULTIPLE_FACES ''two'' critical
        (addViolation 20000 MULTIPLE_FACES ''two'' critical (useProctoring 0 ''A''))
      = addViolation 20000 MULTIPLE_FACES ''two'' critical (useProctoring 0 ''A'')"
proof -
  let ?st0 = "useProctoring 0 ''A''"
  let ?st1 = "addViolation 20000 MULTIPLE_FACES ''two'' critical ?st0"
  have h0: "\<not> 20000 - getOrZero (violationCooldowns ?st0) MULTIPLE_FACES < getCooldownPeriod MULTIPLE_FACES"
    by (simp add: useProctoring_def getOrZero_def)
  have v: "violations (sessionData ?st1) =
      [\<lparr>id' = ''violation_'' @ showInt 20000, type = MULTIPLE_FACES, timestamp = 20000,
        description = ''two'', severity = critical, duration = None\<rparr>]"
    and sc: "integrityScore (sessionData ?st1) = calculateIntegrityScore (violations (sessionData ?st1))"
    and cd: "getOrZero (violationCooldowns ?st1) MULTIPLE_FACES = 20000"
    using h0 addViolation_cooldown [of 20000 ?st0 MULTIPLE_FACES "''two''" critical]
    by (simp_all add: useProctoring_def)
  have h1: "25000 - getOrZero (violationCooldowns ?st1) MULTIPLE_FACES < getCooldownPeriod MULTIPLE_FACES"
    using cd by simp
  have noop: "addViolation 25000 MULTIPLE_FACES ''two'' critical ?st1 = ?st1"
    using h1 addViolation_cooldown [of 25000 ?st1 MULTIPLE_FACES "''two''" critical] by blast
  have "integrityScore (sessionData ?st1) = 80"
    unfolding sc v by (simp add: calculateIntegrityScore_def recordSeverity_def)
  then show ?thesis using h0 h1 v noop by simp
qed

section \<open>Starting\<close>

text \<open>
  Claim C8. \<^const>\<open>startMonitoring\<close> sets \<open>isRecording\<close> and resets \<open>startTime\<close> to the current
  instant; the violations, the integrity score and the session id stay as they are.
\<close>

theorem startMonitoring_frame:
  "isRecording (monitoringStatus (startMonitoring now st))
   \<and> startTime (sessionData (startMonitoring now st)) = now
   \<and> violations (sessionData (startMonitoring now st)) = violations (sessionData st)
   \<and> integrityScore (sessionData (startMonitoring now st)) = integrityScore (sessionData st)
   \<and> sessionId (sessionData (startMonitoring now st)) = sessionId (sessionData st)"
  by (simp add: startMonitoring_def)

section \<open>Detected objects\<close>

lemmas lower_simps = toLowerCase_def toLowerChar_def upperCaseUnits_def lowerCaseUnits_def

lemma addViolation_objectCooldowns [simp]:
  "objectCooldowns (addViolation now ty d s st) = objectCooldowns st"
  by (simp add: addViolation_def Let_def)

lemma addViolation_monitoringStatus [simp]:
  "monitoringStatus (addViolation now ty d s st) = monitoringStatus st"
  by (simp add: addViolation_def Let_def)

lemma handleViolationTimeout_monitoringStatus [simp]:
  "monitoringStatus (handleViolationTimeout now ty d s delay st) = monitoringStatus st"
  by (simp add: handleViolationTimeout_def setTimeout_def)

lemma clearViolationTimeout_monitoringStatus [simp]:
  "monitoringStatus (clearViolationTimeout ty st) = monitoringStatus st"
  by (simp add: clearViolationTimeout_def split: option.split)

lemma processObject_monitoringStatus [simp]:
  "monitoringStatus (processObject percentText now obj st) = monitoringStatus st"
  by (simp add: processObject_def Let_def)

lemma fold_processObject_monitoringStatus [simp]:
  "monitoringStatus (fold (processObject percentText now) objs st) = monitoringStatus st"
  by (induction objs arbitrary: st) simp_all

lemma processDetectionResults_monitoringStatus [simp]:
  "monitoringStatus (processDetectionResults percentText now fr objs st) = monitoringStatus st"
  by (simp add: processDetectionResults_def Let_def)

lemma processObject_unclassified: "unclassified obj \<Longrightarrow> processObject percentText now obj st = st"
  by (simp add: processObject_def unclassified_def Let_def)

lemma fold_processObject_filter:
  "fold (processObject percentText now) objs st = fold (processObject percentText now) (filter (\<lambda>obj. \<not> unclassified obj) objs) st"
  by (induction objs arbitrary: st) (simp_all add: processObject_unclassified)

text \<open>
  Claim C6, amended. Each detected object of a frame is processed in turn: its label is
  lower-cased and checked against the label's own 30 second cooldown. When more than 30
  seconds have passed since the label's stamp, the label is classified by the first match in
  the order "phone" (a critical \<open>PHONE_DETECTED\<close>), "book" (a high \<open>BOOK_DETECTED\<close>), "laptop" or
  "tablet" (a high \<open>DEVICE_DETECTED\<close>); \<^const>\<open>addViolation\<close> is called with that type and
  severity, and the label is stamped with the current instant whether or not the cooldown of
  the violation type lets the event through. When fewer than 30 seconds have passed, the
  object changes nothing. The instant exactly 30 seconds after the stamp is left out.
\<close>

theorem processObject_classification:
  "(now - getOrZero (objectCooldowns st) (toLowerCase (object obj)) > 30000
      \<and> includes' (toLowerCase (object obj)) ''phone'' \<longrightarrow>
      processObject percentText now obj st =
        (addViolation now PHONE_DETECTED
           (''Mobile phone detected with '' @ percentText (confidence obj) @ ''% confidence'')
           critical st)
        \<lparr>objectCooldowns := AList.update (toLowerCase (object obj)) now (objectCooldowns st)\<rparr>)
   \<and> (now - getOrZero (objectCooldowns st) (toLowerCase (object obj)) > 30000
      \<and> \<not> includes' (toLowerCase (object obj)) ''phone''
      \<and> includes' (toLowerCase (object obj)) ''book'' \<longrightarrow>
      processObject percentText now obj st =
        (addViolation now BOOK_DETECTED
           (''Book/notes detected with '' @ percentText (confidence obj) @ ''% confidence'')
           high st)
        \<lparr>objectCooldowns := AList.update (toLowerCase (object obj)) now (objectCooldowns st)\<rparr>)
   \<and> (now - getOrZero (objectCooldowns st) (toLowerCase (object obj)) > 30000
      \<and> \<not> includes' (toLowerCase (object obj)) ''phone''
      \<and> \<not> includes' (toLowerCase (object obj)) ''book''
      \<and> (includes' (toLowerCase (object obj)) ''laptop''
           \<or> includes' (toLowerCase (object obj)) ''tablet'') \<longrightarrow>
      processObject percentText now obj st =
        (addViolation now DEVICE_DETECTED (''Electronic device detected: '' @ object obj) high st)
        \<lparr>objectCooldowns := AList.update (toLowerCase (object obj)) now (objectCooldowns st)\<rparr>)
   \<and> (now - getOrZero (objectCooldowns st) (toLowerCase (object obj)) > 30000
      \<and> (includes' (toLowerCase (object obj)) ''phone''
           \<or> includes' (toLowerCase (object obj)) ''book''
           \<or> includes' (toLowerCase (object obj)) ''laptop''
           \<or> includes' (toLowerCase (object obj)) ''tablet'') \<longrightarrow>
      getOrZero (objectCooldowns (processObject percentText now obj st)) (toLowerCase (object obj))
        = now)
   \<and> (now - getOrZero (objectCooldowns st) (toLowerCase (object obj)) < 30000 \<longrightarrow>
      processObject percentText now obj st = st)
   \<and> processDetectionResults percentText now faceResults (objectResults @ [obj]) st =
       processObject percentText now obj
         (processDetectionResults percentText now faceResults objectResults st)"
  by (simp add: processObject_def processDetectionResults_def Let_def getOrZero_update)

theorem processObject_classification_witness:
  "100000 - getOrZero (objectCooldowns (useProctoring 0 ''A'')) (toLowerCase ''Cell Phone'') > 30000
   \<and> includes' (toLowerCase ''Cell Phone'') ''phone''
   \<and> map (\<lambda>v. (type v, severity v))
        (violations (sessionData
          (processObject examplePercentText 100000 \<lparr>object = ''Cell Phone'', confidence = 0.9\<rparr>
            (useProctoring 0 ''A''))))
      = [(PHONE_DETECTED, critical)]
   \<and> objectCooldowns
        (processObject examplePercentText 100000 \<lparr>object = ''Cell Phone'', confidence = 0.9\<rparr>
          (useProctoring 0 ''A''))
      = [(''cell phone'', 100000)]
   \<and> map (\<lambda>v. (type v, severity v))
        (violations (sessionData
          (processObject examplePercentText 105000 \<lparr>object = ''phone'', confidence = 0.9\<rparr>
            (processObject examplePercentText 100000 \<lparr>object = ''Cell Phone'', confidence = 0.9\<rparr>
              (useProctoring 0 ''A'')))))
      = [(PHONE_DETECTED, critical)]
   \<and> objectCooldowns
        (processObject examplePercentText 105000 \<lparr>object = ''phone'', confidence = 0.9\<rparr>
          (processObject examplePercentText 100000 \<lparr>object = ''Cell Phone'', confidence = 0.9\<rparr>
            (useProctoring 0 ''A'')))
      = [(''cell phone'', 100000), (''phone'', 105000)]
   \<and> 120000 - getOrZero (objectCooldowns
          (processObject examplePercentText 100000 \<lparr>object = ''Cell Phone'', confidence = 0.9\<rparr>
            (useProctoring 0 ''A'')))
          (toLowerCase ''cell phone'') < 30000
   \<and> processObject examplePercentText 120000 \<lparr>object = ''cell phone'', confidence = 0.9\<rparr>
        (processObject examplePercentText 100000 \<lparr>object = ''Cell Phone'', confidence = 0.9\<rparr>
          (useProctoring 0 ''A''))
      = processObject examplePercentText 100000 \<lparr>object = ''Cell Phone'', confidence = 0.9\<rparr>
          (useProctoring 0 ''A'')
   \<and> map (\<lambda>v. (type v, severity v))
        (violations (sessionData
          (processObject examplePercentText 100000 \<lparr>object = ''Notebook'', confidence = 0.9\<rparr>
            (useProctoring 0 ''A''))))
      = [(BOOK_DETECTED, high)]
   \<and> map (\<lambda>v. (type v, severity v))
        (violations (sessionData
          (processObject examplePercentText 100000 \<lparr>object = ''laptop'', confidence = 0.9\<rparr>
            (useProctoring 0 ''A''))))
      = [(DEVICE_DETECTED, high)]"
proof -
  let ?st0 = "useProctoring 0 ''A''"
  let ?cell = "\<lparr>object = ''Cell Phone'', confidence = 0.9\<rparr>"
  let ?st1 = "processObject examplePercentText 100000 ?cell ?st0"
  have lc: "toLowerCase ''Cell Phone'' = ''cell phone''" by (simp add: lower_simps)
  have h0: "100000 - getOrZero (objectCooldowns ?st0) (toLowerCase ''Cell Phone'') > 30000
      \<and> includes' (toLowerCase ''Cell Phone'') ''phone''"
    by (simp add: lc useProctoring_def getOrZero_def)
  have s1: "?st1 =
      (addViolation 100000 PHONE_DETECTED
         (''Mobile phone detected with '' @ examplePercentText 0.9 @ ''% confidence'') critical ?st0)
      \<lparr>objectCooldowns := AList.update ''cell phone'' 100000 (objectCooldowns ?st0)\<rparr>"
    using h0
      processObject_classification
        [where now = 100000 and st = ?st0 and obj = ?cell and percentText = examplePercentText]
    by (simp add: lc)
  have v1: "map (\<lambda>v. (type v, severity v)) (violations (sessionData ?st1)) = [(PHONE_DETECTED, critical)]"
    and o1: "objectCooldowns ?st1 = [(''cell phone'', 100000)]"
    and c1: "violationCooldowns ?st1 = [(PHONE_DETECTED, 100000)]"
    unfolding s1 by (simp_all add: addViolation_def Let_def useProctoring_def getOrZero_def)
  let ?phone = "\<lparr>object = ''phone'', confidence = 0.9\<rparr>"
  have lp: "toLowerCase ''phone'' = ''phone''" by (simp add: lower_simps)
  have h1: "105000 - getOrZero (objectCooldowns ?st1) (toLowerCase ''phone'') > 30000
      \<and> includes' (toLowerCase ''phone'') ''phone''"
    unfolding o1 by (simp add: lp getOrZero_def)
  have s2: "processObject examplePercentText 105000 ?phone ?st1 =
      (addViolation 105000 PHONE_DETECTED
         (''Mobile phone detected with '' @ examplePercentText 0.9 @ ''% confidence'') critical ?st1)
      \<lparr>objectCooldowns := AList.update ''phone'' 105000 (objectCooldowns ?st1)\<rparr>"
    using h1
      processObject_classification
        [where now = 105000 and st = ?st1 and obj = ?phone and percentText = examplePercentText]
    by (simp add: lp)
  have v2: "map (\<lambda>v. (type v, severity v))
        (violations (sessionData (processObject examplePercentText 105000 ?phone ?st1)))
      = [(PHONE_DETECTED, critical)]"
    and o2: "objectCooldowns (processObject examplePercentText 105000 ?phone ?st1)
      = [(''cell phone'', 100000), (''phone'', 105000)]"
    unfolding s2 using v1 o1 c1 by (simp_all add: addViolation_def Let_def getOrZero_def)
  have h3: "120000 - getOrZero (objectCooldowns ?st1) (toLowerCase ''cell phone'') < 30000"
    unfolding o1 by (simp add: lower_simps getOrZero_def)
  have s3: "processObject examplePercentText 120000 \<lparr>object = ''cell phone'', confidence = 0.9\<rparr> ?st1
      = ?st1"
    using h3
      processObject_classification
        [where now = 120000 and st = ?st1 and obj = "\<lparr>object = ''cell phone'', confidence = 0.9\<rparr>"
           and percentText = examplePercentText]
    by simp
  have lb: "toLowerCase ''Notebook'' = ''notebook''" by (simp add: lower_simps)
  let ?book = "\<lparr>object = ''Notebook'', confidence = 0.9\<rparr>"
  have s4: "processObject examplePercentText 100000 ?book ?st0 =
      (addViolation 100000 BOOK_DETECTED
         (''Book/notes detected with '' @ examplePercentText 0.9 @ ''% confidence'') high ?st0)
      \<lparr>objectCooldowns := AList.update ''notebook'' 100000 (objectCooldowns ?st0)\<rparr>"
    using processObject_classification
        [where now = 100000 and st = ?st0 and obj = ?book and percentText = examplePercentText]
    by (simp add: lb useProctoring_def getOrZero_def)
  have v4: "map (\<lambda>v. (type v, severity v))
      (violations (sessionData (processObject examplePercentText 100000 ?book ?st0)))
      = [(BOOK_DETECTED, high)]"
    unfolding s4 by (simp add: addViolation_def Let_def useProctoring_def getOrZero_def)
  have ll: "toLowerCase ''laptop'' = ''laptop''" by (simp add: lower_simps)
  let ?laptop = "\<lparr>object = ''laptop'', confidence = 0.9\<rparr>"
  have s5: "processObject examplePercentText 100000 ?laptop ?st0 =
      (addViolation 100000 DEVICE_DETECTED (''Electronic device detected: '' @ ''laptop'') high ?st0)
      \<lparr>objectCooldowns := AList.update ''laptop'' 100000 (objectCooldowns ?st0)\<rparr>"
    using processObject_classification
        [where now = 100000 and st = ?st0 and obj = ?laptop and percentText = examplePercentText]
    by (simp add: ll useProctoring_def getOrZero_def)
  have v5: "map (\<lambda>v. (type v, severity v))
      (violations (sessionData (processObject examplePercentText 100000 ?laptop ?st0)))
      = [(DEVICE_DETECTED, high)]"
    unfolding s5 by (simp add: addViolation_def Let_def useProctoring_def getOrZero_def)
  show ?thesis
    by (intro conjI) (use h0 v1 o1 v2 o2 h3 s3 v4 v5 in \<open>blast+\<close>)
qed

text \<open>
  As first stated, the claim fails in two places. It gives every label containing "book" a
  \<open>BOOK_DETECTED\<close> event: the label "phonebook" contains "book", its cooldown has elapsed and
  nothing holds back a \<open>BOOK_DETECTED\<close> event, yet the only event is a \<open>PHONE_DETECTED\<close> one, since
  the first match decides. And it processes an object once its 30 second cooldown has
  elapsed: with "cell phone" stamped at 100000 and seen again at 130000, exactly 30 seconds
  have passed (at that distance \<^const>\<open>addViolation\<close> lets an event of the type through: called
  directly it appends one), yet the object is ignored, neither emitted nor stamped.
\<close>

theorem processObject_classification_counterexample:
  "includes' (toLowerCase ''phonebook'') ''book''
   \<and> 100000 - getOrZero (objectCooldowns (useProctoring 0 ''A'')) (toLowerCase ''phonebook'') > 30000
   \<and> \<not> 100000 - getOrZero (violationCooldowns (useProctoring 0 ''A'')) BOOK_DETECTED
         < getCooldownPeriod BOOK_DETECTED
   \<and> map (\<lambda>v. (type v, severity v))
        (violations (sessionData
          (processObject examplePercentText 100000 \<lparr>object = ''phonebook'', confidence = 0.9\<rparr>
            (useProctoring 0 ''A''))))
      = [(PHONE_DETECTED, critical)]
   \<and> includes' (toLowerCase ''cell phone'') ''phone''
   \<and> 130000 - getOrZero (objectCooldowns
          (processObject examplePercentText 100000 \<lparr>object = ''cell phone'', confidence = 0.9\<rparr>
            (useProctoring 0 ''A''))) (toLowerCase ''cell phone'') = 30000
   \<and> \<not> 130000 - getOrZero (violationCooldowns
          (processObject examplePercentText 100000 \<lparr>object = ''cell phone'', confidence = 0.9\<rparr>
            (useProctoring 0 ''A''))) PHONE_DETECTED < getCooldownPeriod PHONE_DETECTED
   \<and> length (violations (sessionData
        (addViolation 130000 PHONE_DETECTED ''Mobile phone detected with 90% confidence'' critical
          (processObject examplePercentText 100000 \<lparr>object = ''cell phone'', confidence = 0.9\<rparr>
            (useProctoring 0 ''A''))))) = 2
   \<and> processObject examplePercentText 130000 \<lparr>object = ''cell phone'', confidence = 0.9\<rparr>
        (processObject examplePercentText 100000 \<lparr>object = ''cell phone'', confidence = 0.9\<rparr>
          (useProctoring 0 ''A''))
      = processObject examplePercentText 100000 \<lparr>object = ''cell phone'', confidence = 0.9\<rparr>
          (useProctoring 0 ''A'')
   \<and> length (violations (sessionData
        (processObject examplePercentText 100000 \<lparr>object = ''cell phone'', confidence = 0.9\<rparr>
          (useProctoring 0 ''A'')))) = 1"
proof -
  let ?st0 = "useProctoring 0 ''A''"
  let ?cell = "\<lparr>object = ''cell phone'', confidence = 0.9\<rparr>"
  let ?st1 = "processObject examplePercentText 100000 ?cell ?st0"
  have key: "toLowerCase ''phonebook'' = ''phonebook''" by (simp add: lower_simps)
  have a: "includes' (toLowerCase ''phonebook'') ''book''" unfolding key by simp
  have b: "100000 - getOrZero (objectCooldowns ?st0) (toLowerCase ''phonebook'') > 30000"
    by (simp add: useProctoring_def getOrZero_def)
  have c: "\<not> 100000 - getOrZero (violationCooldowns ?st0) BOOK_DETECTED
         < getCooldownPeriod BOOK_DETECTED"
    by (simp add: useProctoring_def getOrZero_def)
  have d: "map (\<lambda>v. (type v, severity v))
        (violations (sessionData
          (processObject examplePercentText 100000 \<lparr>object = ''phonebook'', confidence = 0.9\<rparr> ?st0)))
      = [(PHONE_DETECTED, critical)]"
    by (simp add: processObject_def key addViolation_def Let_def useProctoring_def getOrZero_def)
  have kc: "toLowerCase ''cell phone'' = ''cell phone''" by (simp add: lower_simps)
  have e: "includes' (toLowerCase ''cell phone'') ''phone''" unfolding kc by simp
  have o1: "objectCooldowns ?st1 = [(''cell phone'', 100000)]"
    and c1: "violationCooldowns ?st1 = [(PHONE_DETECTED, 100000)]"
    and n1: "length (violations (sessionData ?st1)) = 1"
    by (simp_all add: processObject_def kc addViolation_def Let_def useProctoring_def getOrZero_def)
  have f: "130000 - getOrZero (objectCooldowns ?st1) (toLowerCase ''cell phone'') = 30000"
    unfolding o1 kc by (simp add: getOrZero_def)
  have g: "\<not> 130000 - getOrZero (violationCooldowns ?st1) PHONE_DETECTED
         < getCooldownPeriod PHONE_DETECTED"
    unfolding c1 by (simp add: getOrZero_def)
  have h: "length (violations (sessionData
        (addViolation 130000 PHONE_DETECTED ''Mobile phone detected with 90% confidence'' critical
          ?st1))) = 2"
    using c1 n1 by (simp add: addViolation_def Let_def getOrZero_def)
  have i: "processObject examplePercentText 130000 ?cell ?st1 = ?st1"
    using o1 by (simp add: processObject_def kc Let_def getOrZero_def)
  show ?thesis using a b c d e f g h i n1 by (intro conjI)
qed

lemma allowListed_examples:
  "allowListed ''mouse''" "allowListed ''keyboard''" "allowListed ''remote''" "allowListed ''scissors''"
  by (simp_all add: allowListed_def suspiciousObjects_def lower_simps)

lemma detectObjects_single:
  "allowListed label \<Longrightarrow> 0.4 < c \<Longrightarrow>
   detectObjects [\<lparr>class' = label, score = c\<rparr>] = [\<lparr>object = label, confidence = c\<rparr>]"
  by (simp add: detectObjects_def allowListed_def)

lemma unclassified_examples:
  "unclassified \<lparr>object = ''mouse'', confidence = c\<rparr>"
  "unclassified \<lparr>object = ''keyboard'', confidence = c\<rparr>"
  "unclassified \<lparr>object = ''remote'', confidence = c\<rparr>"
  "unclassified \<lparr>object = ''scissors'', confidence = c\<rparr>"
  by (simp_all add: unclassified_def lower_simps)

text \<open>
  Claim C10. A detected object whose lower-cased label contains none of "phone", "book",
  "laptop", "tablet" changes nothing: no violation, no cooldown stamp. A frame is processed
  as if such objects were not in it, and they show only in \<open>objectsDetected\<close>. The detector's
  allow-list does report such labels: "mouse", "keyboard", "remote", "scissors".
\<close>

theorem unclassified_object_ignored:
  "(unclassified obj \<longrightarrow> processObject percentText now obj st = st)
   \<and> processDetectionResults percentText now faceResults objectResults st =
       processDetectionResults percentText now faceResults
         (filter (\<lambda>obj. \<not> unclassified obj) objectResults) st
   \<and> objectsDetected (monitoringStatus (onFrameLoaded percentText now faceResults objectResults st)) =
       map object objectResults
   \<and> (0.4 < c \<longrightarrow>
        detectObjects [\<lparr>class' = ''mouse'', score = c\<rparr>] = [\<lparr>object = ''mouse'', confidence = c\<rparr>]
        \<and> detectObjects [\<lparr>class' = ''keyboard'', score = c\<rparr>] = [\<lparr>object = ''keyboard'', confidence = c\<rparr>]
        \<and> detectObjects [\<lparr>class' = ''remote'', score = c\<rparr>] = [\<lparr>object = ''remote'', confidence = c\<rparr>]
        \<and> detectObjects [\<lparr>class' = ''scissors'', score = c\<rparr>] = [\<lparr>object = ''scissors'', confidence = c\<rparr>])
   \<and> unclassified \<lparr>object = ''mouse'', confidence = c\<rparr>
   \<and> unclassified \<lparr>object = ''keyboard'', confidence = c\<rparr>
   \<and> unclassified \<lparr>object = ''remote'', confidence = c\<rparr>
   \<and> unclassified \<lparr>object = ''scissors'', confidence = c\<rparr>"
proof (intro conjI impI)
  assume "unclassified obj"
  then show "processObject percentText now obj st = st" by (rule processObject_unclassified)
next
  show "processDetectionResults percentText now faceResults objectResults st =
       processDetectionResults percentText now faceResults (filter (\<lambda>obj. \<not> unclassified obj) objectResults) st"
    unfolding processDetectionResults_def Let_def by (rule fold_processObject_filter)
next
  show "objectsDetected (monitoringStatus (onFrameLoaded percentText now faceResults objectResults st)) =
       map object objectResults"
    by (simp add: onFrameLoaded_def)
next
  assume c: "0.4 < c"
  show "detectObjects [\<lparr>class' = ''mouse'', score = c\<rparr>] = [\<lparr>object = ''mouse'', confidence = c\<rparr>]"
    using allowListed_examples(1) c by (rule detectObjects_single)
  show "detectObjects [\<lparr>class' = ''keyboard'', score = c\<rparr>] = [\<lparr>object = ''keyboard'', confidence = c\<rparr>]"
    using allowListed_examples(2) c by (rule detectObjects_single)
  show "detectObjects [\<lparr>class' = ''remote'', score = c\<rparr>] = [\<lparr>object = ''remote'', confidence = c\<rparr>]"
    using allowListed_examples(3) c by (rule detectObjects_single)
  show "detectObjects [\<lparr>class' = ''scissors'', score = c\<rparr>] = [\<lparr>object = ''scissors'', confidence = c\<rparr>]"
    using allowListed_examples(4) c by (rule detectObjects_single)
qed (rule unclassified_examples)+

theorem unclassified_object_ignored_witness:
  "unclassified \<lparr>object = ''Keyboard'', confidence = 0.8\<rparr>
   \<and> processObject examplePercentText 100000 \<lparr>object = ''Keyboard'', confidence = 0.8\<rparr> (useProctoring 0 ''A'')
      = useProctoring 0 ''A''
   \<and> (0.4 :: real) < 0.8
   \<and> detectObjects [\<lparr>class' = ''mouse'', score = 0.8\<rparr>] = [\<lparr>object = ''mouse'', confidence = 0.8\<rparr>]"
proof -
  have u: "unclassified \<lparr>object = ''Keyboard'', confidence = 0.8\<rparr>"
    by (simp add: unclassified_def lower_simps)
  have c: "(0.4 :: real) < 0.8" by simp
  note w = unclassified_object_ignored
    [where obj = "\<lparr>object = ''Keyboard'', confidence = 0.8\<rparr>" and now = 100000
       and st = "useProctoring 0 ''A''" and c = "0.8"]
  have p: "processObject examplePercentText 100000 \<lparr>object = ''Keyboard'', confidence = 0.8\<rparr> (useProctoring 0 ''A'')
      = useProctoring 0 ''A''"
    by (rule w [THEN conjunct1, THEN mp, OF u])
  have d: "detectObjects [\<lparr>class' = ''mouse'', score = 0.8\<rparr>] = [\<lparr>object = ''mouse'', confidence = 0.8\<rparr>]"
    by (rule w [THEN conjunct2, THEN conjunct2, THEN conjunct2, THEN conjunct1, THEN mp, OF c, THEN conjunct1])
  show ?thesis using u p c d by (intro conjI)
qed

section \<open>Debounce timers\<close>

lemma timersTrackedI:
  assumes "0 < nextHandle st"
    and "distinct (map handle (pendingTimers st))"
    and "\<And>t. t \<in> set (pendingTimers st) \<Longrightarrow> 0 < handle t"
    and "\<And>t. t \<in> set (pendingTimers st) \<Longrightarrow> handle t < nextHandle st"
    and "\<And>t. t \<in> set (pendingTimers st) \<Longrightarrow>
           map_of (violationTimeouts st) (cbType t) = Some (handle t)"
    and "\<And>ty h. map_of (violationTimeouts st) ty = Some h \<Longrightarrow>
           \<exists>t \<in> set (pendingTimers st). handle t = h \<and> cbType t = ty"
  shows "timersTracked st"
  unfolding timersTracked_def using assms by blast

lemma timersTracked_next: "timersTracked st \<Longrightarrow> 0 < nextHandle st"
  unfolding timersTracked_def by blast

lemma timersTracked_distinct: "timersTracked st \<Longrightarrow> distinct (map handle (pendingTimers st))"
  unfolding timersTracked_def by blast

lemma timersTracked_pos: "timersTracked st \<Longrightarrow> t \<in> set (pendingTimers st) \<Longrightarrow> 0 < handle t"
  unfolding timersTracked_def by blast

lemma timersTracked_fresh:
  "timersTracked st \<Longrightarrow> t \<in> set (pendingTimers st) \<Longrightarrow> handle t < nextHandle st"
  unfolding timersTracked_def by blast

lemma timersTracked_entry:
  "timersTracked st \<Longrightarrow> t \<in> set (pendingTimers st) \<Longrightarrow>
   map_of (violationTimeouts st) (cbType t) = Some (handle t)"
  unfolding timersTracked_def by blast

lemma timersTracked_pending:
  "timersTracked st \<Longrightarrow> map_of (violationTimeouts st) ty = Some h \<Longrightarrow>
   \<exists>t \<in> set (pendingTimers st). handle t = h \<and> cbType t = ty"
  unfolding timersTracked_def by blast

lemma timersTracked_cong:
  assumes "timersTracked st"
    and "pendingTimers st' = pendingTimers st"
    and "violationTimeouts st' = violationTimeouts st"
    and "nextHandle st' = nextHandle st"
  shows "timersTracked st'"
  using assms unfolding timersTracked_def by simp

lemma same_handle_same_timer:
  assumes "distinct (map handle ts)" and "t1 \<in> set ts" and "t2 \<in> set ts"
    and "handle t1 = handle t2"
  shows "t1 = t2"
  using assms by (meson distinct_map inj_onD)

lemma timersTracked_mounted: "timersTracked (useProctoring now name)"
  by (simp add: timersTracked_def useProctoring_def)

lemma addViolation_timers [simp]:
  "pendingTimers (addViolation now ty d s st) = pendingTimers st"
  "violationTimeouts (addViolation now ty d s st) = violationTimeouts st"
  "nextHandle (addViolation now ty d s st) = nextHandle st"
  by (simp_all add: addViolation_def Let_def)

lemma processObject_timers [simp]:
  "pendingTimers (processObject percentText now obj st) = pendingTimers st"
  "violationTimeouts (processObject percentText now obj st) = violationTimeouts st"
  "nextHandle (processObject percentText now obj st) = nextHandle st"
  by (simp_all add: processObject_def Let_def)

lemma fold_processObject_timers [simp]:
  "pendingTimers (fold (processObject percentText now) objs st) = pendingTimers st"
  "violationTimeouts (fold (processObject percentText now) objs st) = violationTimeouts st"
  "nextHandle (fold (processObject percentText now) objs st) = nextHandle st"
  by (induction objs arbitrary: st) simp_all

lemma timersTracked_addViolation:
  "timersTracked st \<Longrightarrow> timersTracked (addViolation now ty d s st)"
  by (erule timersTracked_cong) simp_all

lemma timersTracked_fold_processObject:
  "timersTracked st \<Longrightarrow> timersTracked (fold (processObject percentText now) objs st)"
  by (erule timersTracked_cong) simp_all

lemma timersTracked_startMonitoring:
  "timersTracked st \<Longrightarrow> timersTracked (startMonitoring now st)"
  by (erule timersTracked_cong) (simp_all add: startMonitoring_def)

lemma handleViolationTimeout_has:
  "map_of (violationTimeouts st) ty \<noteq> None \<Longrightarrow> handleViolationTimeout now ty d s delay st = st"
  by (simp add: handleViolationTimeout_def)

lemma handleViolationTimeout_new:
  assumes "map_of (violationTimeouts st) ty = None"
  shows "pendingTimers (handleViolationTimeout now ty d s delay st) =
           pendingTimers st @
             [\<lparr>handle = nextHandle st, fireAt = now + delay, cbType = ty,
               cbDescription = d, cbSeverity = s\<rparr>]"
    and "violationTimeouts (handleViolationTimeout now ty d s delay st) =
           AList.update ty (nextHandle st) (violationTimeouts st)"
    and "nextHandle (handleViolationTimeout now ty d s delay st) = Suc (nextHandle st)"
  using assms by (simp_all add: handleViolationTimeout_def setTimeout_def)

lemma timersTracked_handleViolationTimeout:
  assumes inv: "timersTracked st"
  shows "timersTracked (handleViolationTimeout now ty d s delay st)"
proof (cases "map_of (violationTimeouts st) ty")
  case (Some h)
  then show ?thesis using inv by (simp add: handleViolationTimeout_has)
next
  case None
  let ?st' = "handleViolationTimeout now ty d s delay st"
  let ?t0 = "\<lparr>handle = nextHandle st, fireAt = now + delay, cbType = ty,
               cbDescription = d, cbSeverity = s\<rparr>"
  note new = handleViolationTimeout_new [OF None, of now d s delay]
  note pos = timersTracked_next [OF inv]
  have other: "cbType t \<noteq> ty" if "t \<in> set (pendingTimers st)" for t
    using timersTracked_entry [OF inv that] None by auto
  show ?thesis
  proof (rule timersTrackedI)
    show "0 < nextHandle ?st'" unfolding new by simp
  next
    have "nextHandle st \<notin> handle ` set (pendingTimers st)"
      using timersTracked_fresh [OF inv] by fastforce
    then show "distinct (map handle (pendingTimers ?st'))"
      unfolding new using timersTracked_distinct [OF inv] by simp
  next
    fix t assume "t \<in> set (pendingTimers ?st')"
    then have t: "t \<in> set (pendingTimers st) \<or> t = ?t0" unfolding new by auto
    show "0 < handle t"
      using t timersTracked_pos [OF inv] pos by auto
    show "handle t < nextHandle ?st'"
      unfolding new using t timersTracked_fresh [OF inv] by fastforce
    show "map_of (violationTimeouts ?st') (cbType t) = Some (handle t)"
      unfolding new using t other timersTracked_entry [OF inv] by (auto simp: update_conv')
  next
    fix ty' h assume "map_of (violationTimeouts ?st') ty' = Some h"
    then have m: "(if ty' = ty then Some (nextHandle st) else map_of (violationTimeouts st) ty') = Some h"
      unfolding new by (simp add: update_conv')
    show "\<exists>t \<in> set (pendingTimers ?st'). handle t = h \<and> cbType t = ty'"
    proof (cases "ty' = ty")
      case True
      with m have "h = nextHandle st" by simp
      with True show ?thesis unfolding new by simp
    next
      case False
      with m have "map_of (violationTimeouts st) ty' = Some h" by simp
      from timersTracked_pending [OF inv this] show ?thesis unfolding new by auto
    qed
  qed
qed


lemma timersTracked_cancel:
  assumes inv: "timersTracked st" and e: "map_of (violationTimeouts st) ty = Some h"
    and p: "pendingTimers st' = clearTimeout h (pendingTimers st)"
    and v: "violationTimeouts st' = AList.delete ty (violationTimeouts st)"
    and n: "nextHandle st' = nextHandle st"
  shows "timersTracked st'"
proof (rule timersTrackedI)
  show "0 < nextHandle st'" unfolding n by (rule timersTracked_next [OF inv])
next
  show "distinct (map handle (pendingTimers st'))"
    unfolding p clearTimeout_def using timersTracked_distinct [OF inv] by (rule distinct_map_filter)
next
  fix t assume "t \<in> set (pendingTimers st')"
  then have t: "t \<in> set (pendingTimers st)" and ne: "handle t \<noteq> h"
    unfolding p clearTimeout_def by simp_all
  show "0 < handle t" using inv t by (rule timersTracked_pos)
  show "handle t < nextHandle st'" unfolding n using inv t by (rule timersTracked_fresh)
  have "cbType t \<noteq> ty" using timersTracked_entry [OF inv t] e ne by auto
  then show "map_of (violationTimeouts st') (cbType t) = Some (handle t)"
    unfolding v using timersTracked_entry [OF inv t] by (simp add: delete_conv')
next
  fix ty' h' assume "map_of (violationTimeouts st') ty' = Some h'"
  then have ne: "ty' \<noteq> ty" and e': "map_of (violationTimeouts st) ty' = Some h'"
    unfolding v by (auto simp: delete_conv' split: if_splits)
  from timersTracked_pending [OF inv e'] obtain t
    where t: "t \<in> set (pendingTimers st)" "handle t = h'" "cbType t = ty'" by blast
  from timersTracked_pending [OF inv e] obtain t2
    where t2: "t2 \<in> set (pendingTimers st)" "handle t2 = h" "cbType t2 = ty" by blast
  have "h' \<noteq> h"
  proof
    assume "h' = h"
    then have "t = t2"
      using same_handle_same_timer [OF timersTracked_distinct [OF inv] t(1) t2(1)] t(2) t2(2) by simp
    then show False using t(3) t2(3) ne by simp
  qed
  then show "\<exists>t \<in> set (pendingTimers st'). handle t = h' \<and> cbType t = ty'"
    unfolding p clearTimeout_def using t by auto
qed

lemma timersTracked_clearViolationTimeout:
  assumes inv: "timersTracked st"
  shows "timersTracked (clearViolationTimeout ty st)"
proof (cases "map_of (violationTimeouts st) ty")
  case None
  then show ?thesis using inv by (simp add: clearViolationTimeout_def)
next
  case (Some h)
  show ?thesis
  proof (cases "h = 0")
    case True
    then show ?thesis using inv Some by (simp add: clearViolationTimeout_def)
  next
    case False
    show ?thesis
      by (rule timersTracked_cancel [OF inv Some]) (simp_all add: clearViolationTimeout_def Some False)
  qed
qed

lemma find_handle_Some:
  "find (\<lambda>t. handle t = h) ts = Some t \<Longrightarrow> t \<in> set ts \<and> handle t = h"
  by (induction ts) (auto split: if_splits)

lemma timersTracked_fireTimeout:
  assumes inv: "timersTracked st" and f: "fireTimeout now h st = Some st'"
  shows "timersTracked st'"
proof -
  from f obtain t where fd: "find (\<lambda>t. handle t = h) (pendingTimers st) = Some t"
    and due: "fireAt t \<le> now"
    and st': "st' = timeoutCallback now t (st\<lparr>pendingTimers := clearTimeout h (pendingTimers st)\<rparr>)"
    by (auto simp: fireTimeout_def split: option.splits if_splits)
  from find_handle_Some [OF fd] have t: "t \<in> set (pendingTimers st)" and h: "handle t = h"
    by simp_all
  have e: "map_of (violationTimeouts st) (cbType t) = Some h"
    using timersTracked_entry [OF inv t] h by simp
  show ?thesis
    by (rule timersTracked_cancel [OF inv e]) (simp_all add: st' timeoutCallback_def Let_def)
qed

lemma fold_clearTimeout:
  "fold (\<lambda>entry timers. clearTimeout (snd entry) timers) m ts =
   filter (\<lambda>t. handle t \<notin> snd ` set m) ts"
proof (induction m arbitrary: ts)
  case Nil
  then show ?case by simp
next
  case (Cons e m)
  have "filter (\<lambda>t. handle t \<notin> snd ` set m) (clearTimeout (snd e) ts) =
        filter (\<lambda>t. handle t \<notin> snd ` set (e # m)) ts"
    unfolding clearTimeout_def filter_filter by (rule filter_cong) auto
  then show ?case using Cons.IH [of "clearTimeout (snd e) ts"] by simp
qed

lemma stopMonitoring_cancels_all:
  assumes inv: "timersTracked st"
  shows "pendingTimers (stopMonitoring now st) = []"
proof -
  have "handle t \<in> snd ` set (violationTimeouts st)" if "t \<in> set (pendingTimers st)" for t
  proof -
    from timersTracked_entry [OF inv that]
    have "(cbType t, handle t) \<in> set (violationTimeouts st)" by (rule map_of_SomeD)
    then show ?thesis by force
  qed
  then have "filter (\<lambda>t. handle t \<notin> snd ` set (violationTimeouts st)) (pendingTimers st) = []"
    by (simp add: filter_empty_conv)
  then show ?thesis by (simp add: stopMonitoring_def fold_clearTimeout)
qed

lemma timersTracked_stopMonitoring:
  assumes inv: "timersTracked st"
  shows "timersTracked (stopMonitoring now st)"
proof (rule timersTrackedI)
  show "0 < nextHandle (stopMonitoring now st)"
    using timersTracked_next [OF inv] by (simp add: stopMonitoring_def)
qed (simp_all add: stopMonitoring_cancels_all [OF inv], simp add: stopMonitoring_def)

lemma timersTracked_processDetectionResults:
  assumes inv: "timersTracked st"
  shows "timersTracked (processDetectionResults percentText now faceResults objectResults st)"
  unfolding processDetectionResults_def Let_def
  by (intro timersTracked_fold_processObject)
     (auto intro!: timersTracked_handleViolationTimeout timersTracked_clearViolationTimeout
        timersTracked_addViolation inv)

lemma timersTracked_step:
  assumes inv: "timersTracked st" and s: "step percentText now e st = Some st'"
  shows "timersTracked st'"
proof (cases e)
  case DetectorReady
  with s have "st' = st\<lparr>isDetectorReady := True\<rparr>" by simp
  with inv show ?thesis by (auto elim: timersTracked_cong)
next
  case StartMonitoring
  with s inv show ?thesis by (auto intro: timersTracked_startMonitoring)
next
  case StopMonitoring
  with s inv show ?thesis by (auto intro: timersTracked_stopMonitoring)
next
  case (FrameLoaded faceResults objectResults)
  have "timersTracked (st\<lparr>monitoringStatus :=
             (monitoringStatus st)\<lparr>faceDetected := hasFace faceResults,
                                  objectsDetected := map object objectResults\<rparr>\<rparr>)"
    using inv by (rule timersTracked_cong) simp_all
  then have "timersTracked (onFrameLoaded percentText now faceResults objectResults st)"
    unfolding onFrameLoaded_def by (rule timersTracked_processDetectionResults)
  with s FrameLoaded show ?thesis by simp
next
  case (TimeoutFired h)
  with s have "fireTimeout now h st = Some st'" by simp
  with inv show ?thesis by (rule timersTracked_fireTimeout)
next
  case (AddViolation ty d sev)
  with s inv show ?thesis by (auto intro: timersTracked_addViolation)
qed

lemma reachable_timersTracked: "reachable percentText st \<Longrightarrow> timersTracked st"
  by (induction rule: reachable.induct) (auto intro: timersTracked_mounted timersTracked_step)

lemma at_most_one_of_key:
  "distinct (map f xs) \<Longrightarrow> length (filter (\<lambda>x. f x = a) xs) \<le> 1"
proof (induction xs)
  case Nil
  then show ?case by simp
next
  case (Cons x xs)
  then have ih: "length (filter (\<lambda>x. f x = a) xs) \<le> 1" and nx: "f x \<notin> f ` set xs" by simp_all
  show ?case
  proof (cases "f x = a")
    case True
    have "\<And>y. y \<in> set xs \<Longrightarrow> f y \<noteq> a" using nx True by (metis imageI)
    then have "filter (\<lambda>x. f x = a) xs = []" by (simp add: filter_empty_conv)
    with True show ?thesis by simp
  next
    case False
    with ih show ?thesis by simp
  qed
qed

lemma timersTracked_distinct_types:
  assumes inv: "timersTracked st"
  shows "distinct (map cbType (pendingTimers st))"
proof -
  have "inj_on cbType (set (pendingTimers st))"
  proof (rule inj_onI)
    fix t1 t2 assume t1: "t1 \<in> set (pendingTimers st)" and t2: "t2 \<in> set (pendingTimers st)"
      and eq: "cbType t1 = cbType t2"
    have "handle t1 = handle t2"
      using timersTracked_entry [OF inv t1] timersTracked_entry [OF inv t2] eq by simp
    then show "t1 = t2"
      using same_handle_same_timer [OF timersTracked_distinct [OF inv] t1 t2] by simp
  qed
  moreover have "distinct (pendingTimers st)"
    using timersTracked_distinct [OF inv] by (simp add: distinct_map)
  ultimately show ?thesis by (simp add: distinct_map)
qed

lemma timersTracked_has_iff:
  assumes inv: "timersTracked st"
  shows "ty \<in> cbType ` set (pendingTimers st) \<longleftrightarrow> map_of (violationTimeouts st) ty \<noteq> None"
proof
  assume "ty \<in> cbType ` set (pendingTimers st)"
  then obtain t where "t \<in> set (pendingTimers st)" "cbType t = ty" by auto
  then show "map_of (violationTimeouts st) ty \<noteq> None"
    using timersTracked_entry [OF inv] by fastforce
next
  assume "map_of (violationTimeouts st) ty \<noteq> None"
  then obtain h where "map_of (violationTimeouts st) ty = Some h" by auto
  from timersTracked_pending [OF inv this] show "ty \<in> cbType ` set (pendingTimers st)" by force
qed

text \<open>
  Claim C5. In every state the hook can reach there is at most one pending debounce timer
  per violation type; starting a timer for a type that has a pending timer changes nothing
  (the pending timer keeps its firing time), and cancelling the timer of a type that has no
  pending timer changes nothing.
\<close>

theorem one_timer_per_type:
  assumes "reachable percentText st"
  shows "length (filter (\<lambda>t. cbType t = ty) (pendingTimers st)) \<le> 1
    \<and> (ty \<in> cbType ` set (pendingTimers st) \<longrightarrow>
         handleViolationTimeout now ty d s delay st = st)
    \<and> (ty \<notin> cbType ` set (pendingTimers st) \<longrightarrow> clearViolationTimeout ty st = st)"
proof -
  from assms have inv: "timersTracked st" by (rule reachable_timersTracked)
  have a: "length (filter (\<lambda>t. cbType t = ty) (pendingTimers st)) \<le> 1"
    using timersTracked_distinct_types [OF inv] by (rule at_most_one_of_key)
  have b: "handleViolationTimeout now ty d s delay st = st"
    if "ty \<in> cbType ` set (pendingTimers st)"
    using that timersTracked_has_iff [OF inv, of ty] by (simp add: handleViolationTimeout_has)
  have c: "clearViolationTimeout ty st = st" if "ty \<notin> cbType ` set (pendingTimers st)"
    using that timersTracked_has_iff [OF inv, of ty] by (simp add: clearViolationTimeout_def)
  show ?thesis using a b c by blast
qed

lemma example_frame_state:
  "onFrameLoaded examplePercentText 1001000
     \<lparr>hasFace = True, count' = 1, multipleFaces = False, faces = [\<lparr>isLookingAway = True\<rparr>]\<rparr> []
     (startMonitoring 1000000 (useProctoring 1000000 ''A''))
   = (startMonitoring 1000000 (useProctoring 1000000 ''A''))
     \<lparr>monitoringStatus :=
        \<lparr>isRecording = True, faceDetected = True, objectsDetected = [],
         currentViolation = None, violationStartTime = None\<rparr>,
      violationTimeouts := [(LOOKING_AWAY, 1)],
      pendingTimers :=
        [\<lparr>handle = 1, fireAt = 1006000, cbType = LOOKING_AWAY,
          cbDescription = ''Candidate looking away from screen for more than 5 seconds'',
          cbSeverity = medium\<rparr>],
      nextHandle := 2\<rparr>"
  by (simp add: onFrameLoaded_def processDetectionResults_def Let_def startMonitoring_def
      useProctoring_def clearViolationTimeout_def handleViolationTimeout_def setTimeout_def)

lemma example_frame_reachable:
  "reachable examplePercentText (onFrameLoaded examplePercentText 1001000
     \<lparr>hasFace = True, count' = 1, multipleFaces = False, faces = [\<lparr>isLookingAway = True\<rparr>]\<rparr> []
     (startMonitoring 1000000 (useProctoring 1000000 ''A'')))"
proof -
  have "reachable examplePercentText (useProctoring 1000000 ''A'')" by (rule reachable.mounted)
  then have "reachable examplePercentText (startMonitoring 1000000 (useProctoring 1000000 ''A''))"
    by (rule reachable.stepped [where e = StartMonitoring and now = 1000000]) simp
  then show ?thesis
    by (rule reachable.stepped [where e = "FrameLoaded _ _" and now = 1001000]) simp
qed

theorem one_timer_per_type_witness:
  "reachable examplePercentText (onFrameLoaded examplePercentText 1001000
     \<lparr>hasFace = True, count' = 1, multipleFaces = False, faces = [\<lparr>isLookingAway = True\<rparr>]\<rparr> []
     (startMonitoring 1000000 (useProctoring 1000000 ''A'')))
   \<and> LOOKING_AWAY \<in> cbType ` set (pendingTimers (onFrameLoaded examplePercentText 1001000
     \<lparr>hasFace = True, count' = 1, multipleFaces = False, faces = [\<lparr>isLookingAway = True\<rparr>]\<rparr> []
     (startMonitoring 1000000 (useProctoring 1000000 ''A''))))
   \<and> handleViolationTimeout 1003000 LOOKING_AWAY ''again'' medium 5000
        (onFrameLoaded examplePercentText 1001000
          \<lparr>hasFace = True, count' = 1, multipleFaces = False, faces = [\<lparr>isLookingAway = True\<rparr>]\<rparr> []
          (startMonitoring 1000000 (useProctoring 1000000 ''A'')))
      = onFrameLoaded examplePercentText 1001000
          \<lparr>hasFace = True, count' = 1, multipleFaces = False, faces = [\<lparr>isLookingAway = True\<rparr>]\<rparr> []
          (startMonitoring 1000000 (useProctoring 1000000 ''A''))
   \<and> FACE_NOT_VISIBLE \<notin> cbType ` set (pendingTimers (onFrameLoaded examplePercentText 1001000
     \<lparr>hasFace = True, count' = 1, multipleFaces = False, faces = [\<lparr>isLookingAway = True\<rparr>]\<rparr> []
     (startMonitoring 1000000 (useProctoring 1000000 ''A''))))
   \<and> clearViolationTimeout FACE_NOT_VISIBLE
        (onFrameLoaded examplePercentText 1001000
          \<lparr>hasFace = True, count' = 1, multipleFaces = False, faces = [\<lparr>isLookingAway = True\<rparr>]\<rparr> []
          (startMonitoring 1000000 (useProctoring 1000000 ''A'')))
      = onFrameLoaded examplePercentText 1001000
          \<lparr>hasFace = True, count' = 1, multipleFaces = False, faces = [\<lparr>isLookingAway = True\<rparr>]\<rparr> []
          (startMonitoring 1000000 (useProctoring 1000000 ''A''))"
proof -
  let ?st = "onFrameLoaded examplePercentText 1001000
     \<lparr>hasFace = True, count' = 1, multipleFaces = False, faces = [\<lparr>isLookingAway = True\<rparr>]\<rparr> []
     (startMonitoring 1000000 (useProctoring 1000000 ''A''))"
  have r: "reachable examplePercentText ?st" by (rule example_frame_reachable)
  have p: "LOOKING_AWAY \<in> cbType ` set (pendingTimers ?st)"
    and q: "FACE_NOT_VISIBLE \<notin> cbType ` set (pendingTimers ?st)"
    unfolding example_frame_state by simp_all
  have a: "handleViolationTimeout 1003000 LOOKING_AWAY ''again'' medium 5000 ?st = ?st"
    using one_timer_per_type [OF r, of LOOKING_AWAY 1003000 "''again''" medium 5000] p by blast
  have b: "clearViolationTimeout FACE_NOT_VISIBLE ?st = ?st"
    using one_timer_per_type [OF r, of FACE_NOT_VISIBLE] q by blast
  show ?thesis using r p a q b by (intro conjI)
qed

section \<open>Cancelled timers\<close>

lemma retired_cong:
  assumes "retired h st"
    and "pendingTimers st' = pendingTimers st"
    and "nextHandle st' = nextHandle st"
  shows "retired h st'"
  using assms unfolding retired_def by simp

lemma retired_subset:
  assumes "retired h st"
    and "set (pendingTimers st') \<subseteq> set (pendingTimers st)"
    and "nextHandle st' = nextHandle st"
  shows "retired h st'"
  using assms unfolding retired_def by auto

lemma retired_handleViolationTimeout:
  assumes "retired h st"
  shows "retired h (handleViolationTimeout now ty d s delay st)"
proof (cases "map_of (violationTimeouts st) ty")
  case (Some h')
  then show ?thesis using assms by (simp add: handleViolationTimeout_has)
next
  case None
  show ?thesis
    using assms unfolding retired_def handleViolationTimeout_new [OF None] by auto
qed

lemma clearViolationTimeout_timers:
  "set (pendingTimers (clearViolationTimeout ty st)) \<subseteq> set (pendingTimers st)"
  "nextHandle (clearViolationTimeout ty st) = nextHandle st"
  by (auto simp: clearViolationTimeout_def clearTimeout_def split: option.splits)

lemma retired_clearViolationTimeout:
  "retired h st \<Longrightarrow> retired h (clearViolationTimeout ty st)"
  by (erule retired_subset) (rule clearViolationTimeout_timers)+

lemma stopMonitoring_timers:
  "set (pendingTimers (stopMonitoring now st)) \<subseteq> set (pendingTimers st)"
  "nextHandle (stopMonitoring now st) = nextHandle st"
  by (auto simp: stopMonitoring_def fold_clearTimeout)

lemma retired_stopMonitoring: "retired h st \<Longrightarrow> retired h (stopMonitoring now st)"
  by (erule retired_subset) (rule stopMonitoring_timers)+

lemma fireTimeout_timers:
  assumes "fireTimeout now h st = Some st'"
  shows "set (pendingTimers st') \<subseteq> set (pendingTimers st)"
    and "nextHandle st' = nextHandle st"
  using assms
  by (auto simp: fireTimeout_def timeoutCallback_def Let_def clearTimeout_def
      split: option.splits if_splits)

lemma retired_processDetectionResults:
  assumes "retired h st"
  shows "retired h (processDetectionResults percentText now faceResults objectResults st)"
proof -
  have fold: "retired h (fold (processObject percentText now) objectResults s)" if "retired h s" for s
    using that by (rule retired_cong) simp_all
  have add: "retired h (addViolation now ty d sev s)" if "retired h s" for s ty d sev
    using that by (rule retired_cong) simp_all
  show ?thesis
    unfolding processDetectionResults_def Let_def
    by (intro fold)
       (auto intro!: retired_handleViolationTimeout retired_clearViolationTimeout add assms)
qed

lemma retired_step:
  assumes r: "retired h st" and s: "step percentText now e st = Some st'"
  shows "retired h st'"
proof (cases e)
  case DetectorReady
  with s have "st' = st\<lparr>isDetectorReady := True\<rparr>" by simp
  with r show ?thesis by (auto elim: retired_cong)
next
  case StartMonitoring
  with s have "st' = startMonitoring now st" by simp
  with r show ?thesis by (auto elim!: retired_cong simp: startMonitoring_def)
next
  case StopMonitoring
  with s r show ?thesis by (auto intro: retired_stopMonitoring)
next
  case (FrameLoaded faceResults objectResults)
  have "retired h (st\<lparr>monitoringStatus :=
             (monitoringStatus st)\<lparr>faceDetected := hasFace faceResults,
                                  objectsDetected := map object objectResults\<rparr>\<rparr>)"
    using r by (rule retired_cong) simp_all
  then have "retired h (onFrameLoaded percentText now faceResults objectResults st)"
    unfolding onFrameLoaded_def by (rule retired_processDetectionResults)
  with s FrameLoaded show ?thesis by simp
next
  case (TimeoutFired h')
  with s have f: "fireTimeout now h' st = Some st'" by simp
  show ?thesis using r fireTimeout_timers [OF f] by (rule retired_subset)
next
  case (AddViolation ty d sev)
  with s have "st' = addViolation now ty d sev st" by simp
  with r show ?thesis by (auto elim!: retired_cong)
qed

lemma retired_run: "retired h st \<Longrightarrow> run percentText es st = Some st' \<Longrightarrow> retired h st'"
proof (induction es arbitrary: st)
  case Nil
  then show ?case by simp
next
  case (Cons ne es)
  obtain now e where ne: "ne = (now, e)" by (cases ne)
  from Cons.prems(2) ne obtain st1 where s1: "step percentText now e st = Some st1" and r1: "run percentText es st1 = Some st'"
    by (auto split: option.splits)
  from Cons.prems(1) s1 have "retired h st1" by (rule retired_step)
  then show ?case using r1 by (rule Cons.IH)
qed

lemma retired_fireTimeout: "retired h st \<Longrightarrow> fireTimeout now h st = None"
proof -
  assume "retired h st"
  then have "\<not> (\<exists>t. t \<in> set (pendingTimers st) \<and> handle t = h)"
    unfolding retired_def by auto
  then have "find (\<lambda>t. handle t = h) (pendingTimers st) = None"
    by (simp add: find_None_iff)
  then show ?thesis by (simp add: fireTimeout_def)
qed

lemma run_append:
  "run percentText (es @ es') st = (case run percentText es st of None \<Rightarrow> None | Some st' \<Rightarrow> run percentText es' st')"
proof (induction es arbitrary: st)
  case Nil
  then show ?case by simp
next
  case (Cons ne es)
  obtain now e where ne: "ne = (now, e)" by (cases ne)
  show ?case unfolding ne using Cons.IH by (simp split: option.splits)
qed

lemma retired_never_fires:
  assumes "retired h st"
  shows "run percentText (es @ [(now, TimeoutFired h)]) st = None"
proof (cases "run percentText es st")
  case None
  then show ?thesis by (simp add: run_append)
next
  case (Some st')
  with assms have "retired h st'" by (rule retired_run)
  then have "fireTimeout now h st' = None" by (rule retired_fireTimeout)
  with Some show ?thesis by (simp add: run_append)
qed

lemma addViolation_ofType_other:
  "ty' \<noteq> ty \<Longrightarrow>
   ofType ty (violations (sessionData (addViolation now ty' d s st))) =
   ofType ty (violations (sessionData st))"
  by (simp add: addViolation_def Let_def ofType_def)

lemma quiet_step:
  assumes none: "ty \<notin> cbType ` set (pendingTimers st)"
    and q: "quiet e" and s: "step percentText now e st = Some st'"
  shows "ty \<notin> cbType ` set (pendingTimers st')
    \<and> ofType ty (violations (sessionData st')) = ofType ty (violations (sessionData st))"
proof (cases e)
  case DetectorReady
  with s have "st' = st\<lparr>isDetectorReady := True\<rparr>" by simp
  with none show ?thesis by simp
next
  case StartMonitoring
  with s have "st' = startMonitoring now st" by simp
  with none show ?thesis by (simp add: startMonitoring_def)
next
  case StopMonitoring
  with s have st': "st' = stopMonitoring now st" by simp
  have "violations (sessionData st') = violations (sessionData st)"
    unfolding st' by (simp add: stopMonitoring_def)
  moreover have "ty \<notin> cbType ` set (pendingTimers st')"
    using none stopMonitoring_timers(1) [of now st] unfolding st' by blast
  ultimately show ?thesis by simp
next
  case (FrameLoaded faceResults objectResults)
  with q show ?thesis by simp
next
  case (TimeoutFired h)
  with s have f: "fireTimeout now h st = Some st'" by simp
  then obtain t where fd: "find (\<lambda>t. handle t = h) (pendingTimers st) = Some t"
    and st': "st' = timeoutCallback now t (st\<lparr>pendingTimers := clearTimeout h (pendingTimers st)\<rparr>)"
    by (auto simp: fireTimeout_def split: option.splits if_splits)
  from find_handle_Some [OF fd] have "t \<in> set (pendingTimers st)" by simp
  with none have ne: "cbType t \<noteq> ty" by blast
  have "ofType ty (violations (sessionData st')) = ofType ty (violations (sessionData st))"
    unfolding st' timeoutCallback_def Let_def using addViolation_ofType_other [OF ne] by simp
  moreover have "ty \<notin> cbType ` set (pendingTimers st')"
    using none fireTimeout_timers(1) [OF f] by blast
  ultimately show ?thesis by simp
next
  case (AddViolation ty' d sev)
  with q show ?thesis by simp
qed

lemma quiet_run:
  assumes "ty \<notin> cbType ` set (pendingTimers st)"
    and "list_all (\<lambda>ne. quiet (snd ne)) es" and "run percentText es st = Some st'"
  shows "ofType ty (violations (sessionData st')) = ofType ty (violations (sessionData st))"
  using assms
proof (induction es arbitrary: st)
  case Nil
  then show ?case by simp
next
  case (Cons ne es)
  obtain now e where ne: "ne = (now, e)" by (cases ne)
  from Cons.prems(3) ne obtain st1 where s1: "step percentText now e st = Some st1" and r1: "run percentText es st1 = Some st'"
    by (auto split: option.splits)
  from Cons.prems(2) ne have q: "quiet e" and qs: "list_all (\<lambda>ne. quiet (snd ne)) es" by simp_all
  from quiet_step [OF Cons.prems(1) q s1]
  have n1: "ty \<notin> cbType ` set (pendingTimers st1)"
    and v1: "ofType ty (violations (sessionData st1)) = ofType ty (violations (sessionData st))"
    by simp_all
  from Cons.IH [OF n1 qs r1] v1 show ?case by simp
qed

lemma idle_step:
  assumes none: "pendingTimers st = []" and q: "quiet e" and s: "step percentText now e st = Some st'"
  shows "pendingTimers st' = [] \<and> violations (sessionData st') = violations (sessionData st)"
proof (cases e)
  case DetectorReady
  with s have "st' = st\<lparr>isDetectorReady := True\<rparr>" by simp
  with none show ?thesis by simp
next
  case StartMonitoring
  with s have "st' = startMonitoring now st" by simp
  with none show ?thesis by (simp add: startMonitoring_def)
next
  case StopMonitoring
  with s have "st' = stopMonitoring now st" by simp
  with none show ?thesis by (simp add: stopMonitoring_def fold_clearTimeout)
next
  case (FrameLoaded faceResults objectResults)
  with q show ?thesis by simp
next
  case (TimeoutFired h)
  with s none show ?thesis by (simp add: fireTimeout_def)
next
  case (AddViolation ty' d sev)
  with q show ?thesis by simp
qed

lemma idle_run:
  assumes "pendingTimers st = []"
    and "list_all (\<lambda>ne. quiet (snd ne)) es" and "run percentText es st = Some st'"
  shows "violations (sessionData st') = violations (sessionData st)"
  using assms
proof (induction es arbitrary: st)
  case Nil
  then show ?case by simp
next
  case (Cons ne es)
  obtain now e where ne: "ne = (now, e)" by (cases ne)
  from Cons.prems(3) ne obtain st1 where s1: "step percentText now e st = Some st1" and r1: "run percentText es st1 = Some st'"
    by (auto split: option.splits)
  from Cons.prems(2) ne have q: "quiet e" and qs: "list_all (\<lambda>ne. quiet (snd ne)) es" by simp_all
  from idle_step [OF Cons.prems(1) q s1]
  have n1: "pendingTimers st1 = []"
    and v1: "violations (sessionData st1) = violations (sessionData st)"
    by simp_all
  from Cons.IH [OF n1 qs r1] v1 show ?case by simp
qed

lemma cancelled_by_clear:
  assumes inv: "timersTracked st" and e: "map_of (violationTimeouts st) ty = Some h"
  shows "h \<in> handle ` set (pendingTimers st)"
    and "retired h (clearViolationTimeout ty st)"
    and "ty \<notin> cbType ` set (pendingTimers (clearViolationTimeout ty st))"
    and "violations (sessionData (clearViolationTimeout ty st)) = violations (sessionData st)"
proof -
  from timersTracked_pending [OF inv e] obtain t
    where t: "t \<in> set (pendingTimers st)" "handle t = h" "cbType t = ty" by blast
  show "h \<in> handle ` set (pendingTimers st)" using t by force
  have pos: "h \<noteq> 0" using timersTracked_pos [OF inv t(1)] t(2) by simp
  have fresh: "h < nextHandle st" using timersTracked_fresh [OF inv t(1)] t(2) by simp
  have p: "pendingTimers (clearViolationTimeout ty st) = clearTimeout h (pendingTimers st)"
    and n: "nextHandle (clearViolationTimeout ty st) = nextHandle st"
    using e pos by (simp_all add: clearViolationTimeout_def)
  show "retired h (clearViolationTimeout ty st)"
    unfolding retired_def p n clearTimeout_def using fresh by auto
  show "ty \<notin> cbType ` set (pendingTimers (clearViolationTimeout ty st))"
  proof
    assume "ty \<in> cbType ` set (pendingTimers (clearViolationTimeout ty st))"
    then obtain u where u: "u \<in> set (pendingTimers st)" "handle u \<noteq> h" "cbType u = ty"
      unfolding p clearTimeout_def by auto
    from timersTracked_entry [OF inv u(1)] e u(3) have "handle u = h" by simp
    with u(2) show False by simp
  qed
  show "violations (sessionData (clearViolationTimeout ty st)) = violations (sessionData st)"
    using e by (simp add: clearViolationTimeout_def)
qed

lemma cancelled_by_stop:
  assumes inv: "timersTracked st" and e: "map_of (violationTimeouts st) ty = Some h"
  shows "retired h (stopMonitoring now st)"
    and "violations (sessionData (stopMonitoring now st)) = violations (sessionData st)"
proof -
  from timersTracked_pending [OF inv e] obtain t
    where t: "t \<in> set (pendingTimers st)" "handle t = h" by blast
  have fresh: "h < nextHandle st" using timersTracked_fresh [OF inv t(1)] t(2) by simp
  show "retired h (stopMonitoring now st)"
    unfolding retired_def stopMonitoring_cancels_all [OF inv] stopMonitoring_timers(2)
    using fresh by simp
  show "violations (sessionData (stopMonitoring now st)) = violations (sessionData st)"
    by (simp add: stopMonitoring_def)
qed

text \<open>
  Claim C7. When the pending debounce timer of a violation type is cancelled, by
  \<^const>\<open>clearViolationTimeout\<close> or by \<^const>\<open>stopMonitoring\<close>, the host can never fire it, whatever
  happens afterwards and however late; and as long as only time passes (timers fire,
  monitoring starts or stops), no violation of that type is added after the cancellation,
  and none at all after a stop.
\<close>

theorem cancelled_timer_never_emits:
  assumes "reachable percentText st" and "map_of (violationTimeouts st) ty = Some h"
  shows "h \<in> handle ` set (pendingTimers st)
    \<and> run percentText (es @ [(now', TimeoutFired h)]) (clearViolationTimeout ty st) = None
    \<and> (list_all (\<lambda>ne. quiet (snd ne)) es \<and> run percentText es (clearViolationTimeout ty st) = Some st'
         \<longrightarrow> filter (\<lambda>v. type v = ty) (violations (sessionData st')) =
              filter (\<lambda>v. type v = ty) (violations (sessionData st)))
    \<and> run percentText (es @ [(now', TimeoutFired h)]) (stopMonitoring now st) = None
    \<and> (list_all (\<lambda>ne. quiet (snd ne)) es \<and> run percentText es (stopMonitoring now st) = Some st'
         \<longrightarrow> violations (sessionData st') = violations (sessionData st))"
proof -
  from assms(1) have inv: "timersTracked st" by (rule reachable_timersTracked)
  note c = cancelled_by_clear [OF inv assms(2)]
  note s = cancelled_by_stop [OF inv assms(2), of now]
  have a: "run percentText (es @ [(now', TimeoutFired h)]) (clearViolationTimeout ty st) = None"
    using c(2) by (rule retired_never_fires)
  have b: "filter (\<lambda>v. type v = ty) (violations (sessionData st')) =
           filter (\<lambda>v. type v = ty) (violations (sessionData st))"
    if "list_all (\<lambda>ne. quiet (snd ne)) es" "run percentText es (clearViolationTimeout ty st) = Some st'"
    using quiet_run [OF c(3) that] c(4) by (simp add: ofType_def)
  have d: "run percentText (es @ [(now', TimeoutFired h)]) (stopMonitoring now st) = None"
    using s(1) by (rule retired_never_fires)
  have e: "violations (sessionData st') = violations (sessionData st)"
    if "list_all (\<lambda>ne. quiet (snd ne)) es" "run percentText es (stopMonitoring now st) = Some st'"
    using idle_run [OF stopMonitoring_cancels_all [OF inv] that] s(2) by simp
  show ?thesis using c(1) a b d e by blast
qed

theorem cancelled_timer_never_emits_witness:
  "reachable examplePercentText (onFrameLoaded examplePercentText 1001000
     \<lparr>hasFace = True, count' = 1, multipleFaces = False, faces = [\<lparr>isLookingAway = True\<rparr>]\<rparr> []
     (startMonitoring 1000000 (useProctoring 1000000 ''A'')))
   \<and> map_of (violationTimeouts (onFrameLoaded examplePercentText 1001000
     \<lparr>hasFace = True, count' = 1, multipleFaces = False, faces = [\<lparr>isLookingAway = True\<rparr>]\<rparr> []
     (startMonitoring 1000000 (useProctoring 1000000 ''A'')))) LOOKING_AWAY = Some 1
   \<and> map_option (\<lambda>s. map (\<lambda>v. (type v, severity v)) (violations (sessionData s)))
        (run examplePercentText [(1006000, TimeoutFired 1)] (onFrameLoaded examplePercentText 1001000
          \<lparr>hasFace = True, count' = 1, multipleFaces = False, faces = [\<lparr>isLookingAway = True\<rparr>]\<rparr> []
          (startMonitoring 1000000 (useProctoring 1000000 ''A''))))
      = Some [(LOOKING_AWAY, medium)]
   \<and> run examplePercentText [(1006000, TimeoutFired 1)] (clearViolationTimeout LOOKING_AWAY (onFrameLoaded examplePercentText 1001000
          \<lparr>hasFace = True, count' = 1, multipleFaces = False, faces = [\<lparr>isLookingAway = True\<rparr>]\<rparr> []
          (startMonitoring 1000000 (useProctoring 1000000 ''A'')))) = None
   \<and> run examplePercentText [(1006000, TimeoutFired 1)] (stopMonitoring 1002000 (onFrameLoaded examplePercentText 1001000
          \<lparr>hasFace = True, count' = 1, multipleFaces = False, faces = [\<lparr>isLookingAway = True\<rparr>]\<rparr> []
          (startMonitoring 1000000 (useProctoring 1000000 ''A'')))) = None
   \<and> list_all (\<lambda>ne. quiet (snd ne)) [(1007000, StartMonitoring)]
   \<and> run examplePercentText [(1007000, StartMonitoring)] (stopMonitoring 1002000 (onFrameLoaded examplePercentText 1001000
          \<lparr>hasFace = True, count' = 1, multipleFaces = False, faces = [\<lparr>isLookingAway = True\<rparr>]\<rparr> []
          (startMonitoring 1000000 (useProctoring 1000000 ''A''))))
      = Some (startMonitoring 1007000 (stopMonitoring 1002000 (onFrameLoaded examplePercentText 1001000
          \<lparr>hasFace = True, count' = 1, multipleFaces = False, faces = [\<lparr>isLookingAway = True\<rparr>]\<rparr> []
          (startMonitoring 1000000 (useProctoring 1000000 ''A'')))))
   \<and> violations (sessionData (startMonitoring 1007000 (stopMonitoring 1002000 (onFrameLoaded examplePercentText 1001000
          \<lparr>hasFace = True, count' = 1, multipleFaces = False, faces = [\<lparr>isLookingAway = True\<rparr>]\<rparr> []
          (startMonitoring 1000000 (useProctoring 1000000 ''A''))))))
      = violations (sessionData (onFrameLoaded examplePercentText 1001000
          \<lparr>hasFace = True, count' = 1, multipleFaces = False, faces = [\<lparr>isLookingAway = True\<rparr>]\<rparr> []
          (startMonitoring 1000000 (useProctoring 1000000 ''A''))))"
proof -
  let ?st = "onFrameLoaded examplePercentText 1001000
     \<lparr>hasFace = True, count' = 1, multipleFaces = False, faces = [\<lparr>isLookingAway = True\<rparr>]\<rparr> []
     (startMonitoring 1000000 (useProctoring 1000000 ''A''))"
  have r: "reachable examplePercentText ?st" by (rule example_frame_reachable)
  have m: "map_of (violationTimeouts ?st) LOOKING_AWAY = Some 1"
    unfolding example_frame_state by simp
  have fires: "map_option (\<lambda>s. map (\<lambda>v. (type v, severity v)) (violations (sessionData s)))
        (run examplePercentText [(1006000, TimeoutFired 1)] ?st) = Some [(LOOKING_AWAY, medium)]"
    unfolding example_frame_state
    by (simp add: fireTimeout_def timeoutCallback_def addViolation_def Let_def clearTimeout_def
        startMonitoring_def useProctoring_def getOrZero_def)
  note w0 = cancelled_timer_never_emits [OF r m, where es = "[]" and now' = 1006000 and now = 1002000]
  have a: "run examplePercentText [(1006000, TimeoutFired 1)] (clearViolationTimeout LOOKING_AWAY ?st) = None"
    using w0 [THEN conjunct2, THEN conjunct1] by simp
  have b: "run examplePercentText [(1006000, TimeoutFired 1)] (stopMonitoring 1002000 ?st) = None"
    using w0 [THEN conjunct2, THEN conjunct2, THEN conjunct2, THEN conjunct1] by simp
  have q: "list_all (\<lambda>ne. quiet (snd ne)) [(1007000, StartMonitoring)]" by simp
  have s: "run examplePercentText [(1007000, StartMonitoring)] (stopMonitoring 1002000 ?st)
      = Some (startMonitoring 1007000 (stopMonitoring 1002000 ?st))" by simp
  note w1 = cancelled_timer_never_emits [OF r m, where es = "[(1007000, StartMonitoring)]"
      and now = 1002000 and st' = "startMonitoring 1007000 (stopMonitoring 1002000 ?st)"]
  have c: "violations (sessionData (startMonitoring 1007000 (stopMonitoring 1002000 ?st)))
      = violations (sessionData ?st)"
    using w1 [THEN conjunct2, THEN conjunct2, THEN conjunct2, THEN conjunct2] q s by blast
  show ?thesis using r m fires a b q s c by (intro conjI)
qed

section \<open>Stopping\<close>

text \<open>
  Claim C4. \<^const>\<open>stopMonitoring\<close> clears \<open>isRecording\<close>, sets \<open>endTime\<close> to the current instant and
  \<open>totalDuration\<close> to the whole seconds since \<open>startTime\<close>, and empties \<open>violationTimeouts\<close> and
  \<open>violationCooldowns\<close>; the claim that it also resets the per-label cooldowns fails: it leaves
  \<open>objectCooldowns\<close> as it is. After a phone was seen at 100000 and monitoring stopped at 101000,
  the stamp of "cell phone" is still there, and the phone seen again at 106000 in the
  restarted session adds no violation.
\<close>

theorem stopMonitoring_keeps_objectCooldowns:
  "(\<forall>now st.
      objectCooldowns (stopMonitoring now st) = objectCooldowns st
      \<and> \<not> isRecording (monitoringStatus (stopMonitoring now st))
      \<and> endTime (sessionData (stopMonitoring now st)) = Some now
      \<and> totalDuration (sessionData (stopMonitoring now st)) =
          (now - startTime (sessionData st)) div 1000
      \<and> violationTimeouts (stopMonitoring now st) = []
      \<and> violationCooldowns (stopMonitoring now st) = [])
   \<and> objectCooldowns
        (onFrameLoaded examplePercentText 100000 \<lparr>hasFace = True, count' = 1, multipleFaces = False, faces = []\<rparr>
           [\<lparr>object = ''cell phone'', confidence = 0.9\<rparr>]
           (startMonitoring 50000 (useProctoring 0 ''A'')))
      = [(''cell phone'', 100000)]
   \<and> violationCooldowns
        (onFrameLoaded examplePercentText 100000 \<lparr>hasFace = True, count' = 1, multipleFaces = False, faces = []\<rparr>
           [\<lparr>object = ''cell phone'', confidence = 0.9\<rparr>]
           (startMonitoring 50000 (useProctoring 0 ''A'')))
      = [(PHONE_DETECTED, 100000)]
   \<and> objectCooldowns
        (stopMonitoring 101000
          (onFrameLoaded examplePercentText 100000 \<lparr>hasFace = True, count' = 1, multipleFaces = False, faces = []\<rparr>
             [\<lparr>object = ''cell phone'', confidence = 0.9\<rparr>]
             (startMonitoring 50000 (useProctoring 0 ''A''))))
      = [(''cell phone'', 100000)]
   \<and> violationCooldowns
        (stopMonitoring 101000
          (onFrameLoaded examplePercentText 100000 \<lparr>hasFace = True, count' = 1, multipleFaces = False, faces = []\<rparr>
             [\<lparr>object = ''cell phone'', confidence = 0.9\<rparr>]
             (startMonitoring 50000 (useProctoring 0 ''A''))))
      = []
   \<and> map (\<lambda>v. (type v, timestamp v))
        (violations (sessionData
          (onFrameLoaded examplePercentText 106000 \<lparr>hasFace = True, count' = 1, multipleFaces = False, faces = []\<rparr>
             [\<lparr>object = ''cell phone'', confidence = 0.9\<rparr>]
             (startMonitoring 102000
               (stopMonitoring 101000
                 (onFrameLoaded examplePercentText 100000 \<lparr>hasFace = True, count' = 1, multipleFaces = False, faces = []\<rparr>
                   [\<lparr>object = ''cell phone'', confidence = 0.9\<rparr>]
                   (startMonitoring 50000 (useProctoring 0 ''A''))))))))
      = [(PHONE_DETECTED, 100000)]"
proof -
  let ?F = "\<lparr>hasFace = True, count' = 1, multipleFaces = False, faces = []\<rparr>"
  let ?cell = "\<lparr>object = ''cell phone'', confidence = 0.9\<rparr>"
  let ?S = "onFrameLoaded examplePercentText 100000 ?F [?cell] (startMonitoring 50000 (useProctoring 0 ''A''))"
  have g: "\<forall>now st.
      objectCooldowns (stopMonitoring now st) = objectCooldowns st
      \<and> \<not> isRecording (monitoringStatus (stopMonitoring now st))
      \<and> endTime (sessionData (stopMonitoring now st)) = Some now
      \<and> totalDuration (sessionData (stopMonitoring now st)) =
          (now - startTime (sessionData st)) div 1000
      \<and> violationTimeouts (stopMonitoring now st) = []
      \<and> violationCooldowns (stopMonitoring now st) = []"
    by (simp add: stopMonitoring_def)
  have key: "toLowerCase ''cell phone'' = ''cell phone''" by (simp add: lower_simps)
  have o: "objectCooldowns ?S = [(''cell phone'', 100000)]"
    and c: "violationCooldowns ?S = [(PHONE_DETECTED, 100000)]"
    and v: "map (\<lambda>v. (type v, timestamp v)) (violations (sessionData ?S)) = [(PHONE_DETECTED, 100000)]"
    by (simp_all add: onFrameLoaded_def processDetectionResults_def clearViolationTimeout_def
        processObject_def key addViolation_def Let_def startMonitoring_def useProctoring_def
        getOrZero_def)
  have o': "objectCooldowns (stopMonitoring 101000 ?S) = [(''cell phone'', 100000)]"
    using g o by simp
  have c': "violationCooldowns (stopMonitoring 101000 ?S) = []"
    by (simp add: stopMonitoring_def)
  let ?R = "startMonitoring 102000 (stopMonitoring 101000 ?S)"
  have oR: "objectCooldowns ?R = [(''cell phone'', 100000)]"
    using o' by (simp add: startMonitoring_def)
  have vR: "violations (sessionData ?R) = violations (sessionData ?S)"
    by (simp add: startMonitoring_def stopMonitoring_def)
  have tR: "violationTimeouts ?R = []"
    by (simp add: startMonitoring_def stopMonitoring_def)
  have "processObject examplePercentText 106000 ?cell s = s" if "objectCooldowns s = [(''cell phone'', 100000)]" for s
    using that by (simp add: processObject_def key Let_def getOrZero_def)
  then have "violations (sessionData (onFrameLoaded examplePercentText 106000 ?F [?cell] ?R)) = violations (sessionData ?R)"
    using oR tR by (simp add: onFrameLoaded_def processDetectionResults_def clearViolationTimeout_def)
  then have again: "map (\<lambda>v. (type v, timestamp v))
      (violations (sessionData (onFrameLoaded examplePercentText 106000 ?F [?cell] ?R))) = [(PHONE_DETECTED, 100000)]"
    using vR v by simp
  show ?thesis using g o c o' c' again by (intro conjI)
qed

end
